theory Spec2Isabelle
  imports Complex_Main "HOL-Library.Word"
begin

section \<open>Data model of Main.ts\<close>

text \<open>
  JavaScript numbers are modelled as \<open>real\<close> (frame counter and instance count, which only
  ever hold small non-negative integers, as \<open>nat\<close>). Objects whose identity matters
  (the VertexUniform instances shared between the pool's free list and the scene objects)
  live in an explicit heap: a reference is an index into \<open>vertexUniformHeap\<close>.
  \<open>null\<close>/\<open>undefined\<close> is \<open>None\<close>; dereferencing it is the error \<open>TypeError\<close>.
\<close>

datatype js_error = TypeError

datatype 'a outcome = Done 'a | Thrown js_error 'a

fun result :: "'a outcome \<Rightarrow> 'a" where
  "result (Done a) = a"
| "result (Thrown e a) = a"

fun threw :: "'a outcome \<Rightarrow> bool" where
  "threw (Done a) = False"
| "threw (Thrown e a) = True"

type_synonym uniform_ref = nat

datatype gpu_buffer = GeometryBuffer nat | UniformBuffer uniform_ref

record primitive =
  vertexBuffer :: gpu_buffer
  numVertices :: nat

record scene_object =
  x :: real
  y :: real
  z :: real
  rotationX :: real
  rotationY :: real
  rotationZ :: real
  scaleX :: real
  scaleY :: real
  scaleZ :: real
  vertexUniform :: "uniform_ref option"

record 'm vertex_uniform =
  buffer :: gpu_buffer
  mvpMatrix :: "'m option"
  modelMatrix :: "'m option"
  baseColor :: "real list"
  ambientLightColor :: "real list"
  directionalLightColor :: "real list"
  directionalLightDirection :: "real list"

datatype load_action = LoadActionClear | LoadActionLoad

datatype store_action = StoreActionStore

datatype texture = DepthTexture | DrawableTexture nat

record drawable =
  drawableTexture :: texture

record render_pass_descriptor =
  colorTexture :: "texture option"
  colorLoadAction :: "load_action option"
  colorStoreAction :: "store_action option"
  clearColor :: "real list"
  depthTexture :: "texture option"
  depthLoadAction :: "load_action option"
  depthStoreAction :: "store_action option"
  clearDepth :: real

datatype pipeline = CubeRenderPipelineState | LightHelperRenderPipelineState

datatype primitive_type = PrimitiveTriangle | PrimitiveLinestrip

datatype gpu_command =
    CreateRenderCommandEncoder render_pass_descriptor
  | SetRenderPipelineState pipeline
  | SetDepthStencilState
  | SetVertexBuffer gpu_buffer nat nat
  | DrawPrimitives primitive_type nat nat
  | EndEncoding
  | PresentDrawable drawable
  | Commit

text \<open>
  The fields of the \<open>Main\<close> instance that \<open>resetInstance\<close> and \<open>render\<close> read or write.
  \<open>lightHelper\<close> is \<open>None\<close> until \<open>init\<close> assigns it (after its first call of
  \<open>resetInstance\<close>).
\<close>

record ('c, 'm) main =
  cube :: primitive
  model :: primitive
  useModel :: bool
  cubeNum :: nat
  cubeList :: "scene_object option list"
  cubeUniformList :: "uniform_ref option list"
  lightHelper :: "scene_object option"
  vertexUniformHeap :: "'m vertex_uniform list"
  renderPassDescriptor :: render_pass_descriptor
  camera :: 'c
  time :: nat

text \<open>
  Classes of the repository and libraries that \<open>Main.ts\<close> imports but whose sources are
  not part of it are parameters: the SceneObject and VertexUniform constructors, the model
  matrix of a scene object, gl-matrix's \<open>mat4.multiply\<close>, the camera and its controller,
  and \<open>RGB.createFromHSV\<close>.
\<close>

record ('c, 'm) libs =
  newSceneObject :: scene_object
  newVertexUniform :: "'m vertex_uniform"
  getModelMtx :: "scene_object \<Rightarrow> 'm"
  mat4_multiply :: "'m \<Rightarrow> 'm \<Rightarrow> 'm"
  upDate :: "real \<Rightarrow> 'c \<Rightarrow> 'c"
  getCameraMtx :: "'c \<Rightarrow> 'm"
  createFromHSV :: "real \<Rightarrow> real \<Rightarrow> real \<Rightarrow> real \<times> real \<times> real"

definition RAD :: real where
  "RAD = pi / 180"

definition COLOR_AMBIENT_LIGHT :: "real list" where
  "COLOR_AMBIENT_LIGHT = [0.2, 0.2, 0.2, 1.0]"

definition COLOR_DIRECTIONAL_LIGHT :: "real list" where
  "COLOR_DIRECTIONAL_LIGHT = [0.8, 0.8, 0.8, 1.0]"

text \<open>Reading \<open>xs[i]\<close> in JavaScript: \<open>undefined\<close> out of range.\<close>

definition js_index :: "'a option list \<Rightarrow> nat \<Rightarrow> 'a option" where
  "js_index xs i = (if i < length xs then xs ! i else None)"

text \<open>
  \<open>Math.atan2(y, x)\<close> on finite numbers (the sign of a zero is not modelled; the placement
  \<open>(Math.random() - 0.5) * 100\<close> only produces the positive zero). This is the exact
  value: the rounding of \<open>Math.atan2\<close> and of the arithmetic on doubles is not modelled.
\<close>

definition atan2 :: "real \<Rightarrow> real \<Rightarrow> real" where
  "atan2 b a =
     (if a > 0 then arctan (b / a)
      else if a < 0 then (if b \<ge> 0 then arctan (b / a) + pi else arctan (b / a) - pi)
      else if b > 0 then pi / 2
      else if b < 0 then - (pi / 2)
      else 0)"

section \<open>resetInstance\<close>

text \<open>
  \<open>new VertexUniform(); createBuffer(gpu)\<close>: a fresh object at the end of the heap, whose GPU
  buffer is identified by the object that owns it.
\<close>

definition allocVertexUniform :: "('c, 'm) libs \<Rightarrow> ('c, 'm) main \<Rightarrow> uniform_ref \<times> ('c, 'm) main" where
  "allocVertexUniform L s =
     (let r = length (vertexUniformHeap s)
      in (r, s\<lparr>vertexUniformHeap :=
                 vertexUniformHeap s @ [(newVertexUniform L)\<lparr>buffer := UniformBuffer r\<rparr>]\<rparr>))"

text \<open>Lines 184-190: every object's VertexUniform goes to the free list.\<close>

function release_loop :: "nat \<Rightarrow> nat \<Rightarrow> ('c, 'm) main \<Rightarrow> ('c, 'm) main outcome" where
  "release_loop i len s =
     (if i < len then
        (case js_index (cubeList s) i of
           None \<Rightarrow> Thrown TypeError s
         | Some obj \<Rightarrow>
             release_loop (Suc i) len
               (s\<lparr>cubeUniformList := cubeUniformList s @ [vertexUniform obj],
                  cubeList := (cubeList s)[i := None]\<rparr>))
      else Done s)"
  by pat_completeness auto
termination
  by (relation "measure (\<lambda>(i, len, s). len - i)") auto

declare release_loop.simps [simp del]

definition cubeRange :: real where
  "cubeRange = 100"

definition pi2 :: real where
  "pi2 = pi * 2"

text \<open>The two arguments of \<open>RGB.createFromHSV\<close> that line 221 computes from the placement.\<close>

definition hueArg :: "real \<Rightarrow> real \<Rightarrow> real" where
  "hueArg ox oz = atan2 oz ox / RAD"

definition saturationArg :: "real \<Rightarrow> real \<Rightarrow> real" where
  "saturationArg ox oz = 0.8 * sqrt (ox * ox + oz * oz) / (cubeRange / 2)"

definition instanceColor :: "('c, 'm) libs \<Rightarrow> real \<Rightarrow> real \<Rightarrow> real list" where
  "instanceColor L ox oz =
     (case createFromHSV L (hueArg ox oz) (saturationArg ox oz) 0.9 of
        (r, g, b) \<Rightarrow> [r, g, b, 1.0])"

text \<open>
  Lines 204-210: the object of iteration \<open>i\<close>; \<open>rnd k\<close> is the value of the \<open>k\<close>-th call of
  \<open>Math.random()\<close> during this rebuild (five calls per object).
\<close>

definition placedObject :: "('c, 'm) libs \<Rightarrow> (nat \<Rightarrow> real) \<Rightarrow> real \<Rightarrow> nat \<Rightarrow> scene_object" where
  "placedObject L rnd cubeScale i =
     (newSceneObject L)
       \<lparr>scaleZ := cubeScale, scaleY := cubeScale, scaleX := cubeScale,
        x := (rnd (5 * i) - 0.5) * cubeRange,
        y := (rnd (5 * i + 1) - 0.5) * cubeRange,
        z := (rnd (5 * i + 2) - 0.5) * cubeRange,
        rotationX := rnd (5 * i + 3) * pi2,
        rotationZ := rnd (5 * i + 4) * pi2\<rparr>"

text \<open>Lines 211-218: a slot from the front of the free list if there is one, else a new one.\<close>

definition acquireUniform :: "('c, 'm) libs \<Rightarrow> ('c, 'm) main \<Rightarrow> uniform_ref option \<times> ('c, 'm) main" where
  "acquireUniform L s =
     (if length (cubeUniformList s) \<noteq> 0
      then (hd (cubeUniformList s), s\<lparr>cubeUniformList := tl (cubeUniformList s)\<rparr>)
      else (case allocVertexUniform L s of (r, s') \<Rightarrow> (Some r, s')))"

text \<open>One iteration of the loop of lines 203-226.\<close>

definition build_body ::
  "('c, 'm) libs \<Rightarrow> (nat \<Rightarrow> real) \<Rightarrow> real \<Rightarrow> nat \<Rightarrow> ('c, 'm) main \<Rightarrow> ('c, 'm) main outcome" where
  "build_body L rnd cubeScale i s =
     (case acquireUniform L s of
        (vu, s1) \<Rightarrow>
          (let obj = (placedObject L rnd cubeScale i)\<lparr>vertexUniform := vu\<rparr>
           in case vu of
                None \<Rightarrow> Thrown TypeError s1
              | Some r \<Rightarrow>
                  Done (s1\<lparr>vertexUniformHeap :=
                             (vertexUniformHeap s1)
                               [r := (vertexUniformHeap s1 ! r)
                                  \<lparr>baseColor := instanceColor L (x obj) (z obj),
                                   ambientLightColor := COLOR_AMBIENT_LIGHT,
                                   directionalLightColor := COLOR_DIRECTIONAL_LIGHT\<rparr>],
                           cubeList := cubeList s1 @ [Some obj]\<rparr>)))"

text \<open>
  Lines 203-226. The bound \<open>n\<close> is \<open>this.cubeNum\<close>, which the loop reads again in every
  iteration and never assigns.
\<close>

function build_loop ::
  "('c, 'm) libs \<Rightarrow> (nat \<Rightarrow> real) \<Rightarrow> real \<Rightarrow> nat \<Rightarrow> nat \<Rightarrow> ('c, 'm) main \<Rightarrow> ('c, 'm) main outcome" where
  "build_loop L rnd cubeScale i n s =
     (if i < n then
        (case build_body L rnd cubeScale i s of
           Thrown e s' \<Rightarrow> Thrown e s'
         | Done s' \<Rightarrow> build_loop L rnd cubeScale (Suc i) n s')
      else Done s)"
  by pat_completeness auto
termination
  by (relation "measure (\<lambda>(L, rnd, cubeScale, i, n, s). n - i)") auto

declare build_loop.simps [simp del]

definition resetInstance :: "('c, 'm) libs \<Rightarrow> (nat \<Rightarrow> real) \<Rightarrow> ('c, 'm) main \<Rightarrow> ('c, 'm) main outcome" where
  "resetInstance L rnd s =
     (case release_loop 0 (length (cubeList s)) s of
        Thrown e s' \<Rightarrow> Thrown e s'
      | Done s1 \<Rightarrow>
          (let cubeScale = (if useModel s1 then 4.0 else 2.0);
               s2 = s1\<lparr>cubeList := []\<rparr>
           in build_loop L rnd cubeScale 0 (cubeNum s2) s2))"

section \<open>render\<close>

text \<open>
  The test of line 242, \<open>((this.time + i * 7) / 50 << 0) % 10 === 0\<close>. The operands are
  non-negative integers, so the quotient truncated by \<open><< 0\<close> is the integer quotient;
  \<open><< 0\<close> also wraps to a signed 32-bit integer, and \<open>%\<close> takes the sign of the dividend.
\<close>

definition toInt32 :: "int \<Rightarrow> int" where
  "toInt32 n = sint (word_of_int n :: 32 word)"

definition js_rem :: "int \<Rightarrow> int \<Rightarrow> int" where
  "js_rem a b = sgn a * (\<bar>a\<bar> mod \<bar>b\<bar>)"

definition spinBranch :: "nat \<Rightarrow> nat \<Rightarrow> bool" where
  "spinBranch t i = (js_rem (toInt32 (int ((t + i * 7) div 50))) 10 = 0)"

text \<open>Lines 242-247.\<close>

definition animate :: "nat \<Rightarrow> nat \<Rightarrow> scene_object \<Rightarrow> scene_object" where
  "animate t i obj =
     (if spinBranch t i then obj\<lparr>rotationY := rotationY obj + 0.2\<rparr>
      else obj\<lparr>rotationX := rotationX obj + 0.01\<rparr>)"

text \<open>Lines 240-248.\<close>

function update_loop :: "nat \<Rightarrow> nat \<Rightarrow> ('c, 'm) main \<Rightarrow> ('c, 'm) main outcome" where
  "update_loop i cubeLength s =
     (if i < cubeLength then
        (case js_index (cubeList s) i of
           None \<Rightarrow> Thrown TypeError s
         | Some obj \<Rightarrow>
             update_loop (Suc i) cubeLength
               (s\<lparr>cubeList := (cubeList s)[i := Some (animate (time s) i obj)]\<rparr>))
      else Done s)"
  by pat_completeness auto
termination
  by (relation "measure (\<lambda>(i, cubeLength, s). cubeLength - i)") auto

declare update_loop.simps [simp del]

text \<open>
  A frame under construction: the \<open>Main\<close> instance and the commands encoded so far into
  the frame's command buffer, in order.
\<close>

type_synonym ('c, 'm) frame = "('c, 'm) main \<times> gpu_command list"

text \<open>Lines 276-287, one iteration.\<close>

definition draw_body ::
  "('c, 'm) libs \<Rightarrow> 'm \<Rightarrow> real list \<Rightarrow> primitive \<Rightarrow> nat \<Rightarrow> ('c, 'm) frame \<Rightarrow> ('c, 'm) frame outcome" where
  "draw_body L cameraMatrix lightDirection geometry i f =
     (case f of (s, cmds) \<Rightarrow>
        (case js_index (cubeList s) i of
           None \<Rightarrow> Thrown TypeError (s, cmds)
         | Some obj \<Rightarrow>
             (let objMMatrix = getModelMtx L obj;
                  objectMVPMatrix = mat4_multiply L cameraMatrix objMMatrix
              in case vertexUniform obj of
                   None \<Rightarrow> Thrown TypeError (s, cmds)
                 | Some r \<Rightarrow>
                     (let s' = s\<lparr>vertexUniformHeap :=
                                   (vertexUniformHeap s)
                                     [r := (vertexUniformHeap s ! r)
                                        \<lparr>mvpMatrix := Some objectMVPMatrix,
                                         modelMatrix := Some objMMatrix,
                                         directionalLightDirection := lightDirection\<rparr>]\<rparr>
                      in Done (s', cmds @
                           [SetVertexBuffer (buffer (vertexUniformHeap s' ! r)) 0 1,
                            DrawPrimitives PrimitiveTriangle 0 (numVertices geometry)])))))"

function draw_loop ::
  "('c, 'm) libs \<Rightarrow> 'm \<Rightarrow> real list \<Rightarrow> primitive \<Rightarrow> nat \<Rightarrow> nat \<Rightarrow> ('c, 'm) frame \<Rightarrow> ('c, 'm) frame outcome" where
  "draw_loop L cameraMatrix lightDirection geometry i cubeLength f =
     (if i < cubeLength then
        (case draw_body L cameraMatrix lightDirection geometry i f of
           Thrown e f' \<Rightarrow> Thrown e f'
         | Done f' \<Rightarrow> draw_loop L cameraMatrix lightDirection geometry (Suc i) cubeLength f')
      else Done f)"
  by pat_completeness auto
termination
  by (relation "measure (\<lambda>(L, cameraMatrix, lightDirection, geometry, i, cubeLength, f). cubeLength - i)") auto

declare draw_loop.simps [simp del]

text \<open>Lines 261-289: the pass of the instances.\<close>

definition encodeCubePass ::
  "('c, 'm) libs \<Rightarrow> 'm \<Rightarrow> real list \<Rightarrow> nat \<Rightarrow> ('c, 'm) frame \<Rightarrow> ('c, 'm) frame outcome" where
  "encodeCubePass L cameraMatrix lightDirection cubeLength f =
     (case f of (s, cmds) \<Rightarrow>
        (let s1 = s\<lparr>renderPassDescriptor :=
                      (renderPassDescriptor s)\<lparr>colorLoadAction := Some LoadActionClear\<rparr>\<rparr>;
             s2 = s1\<lparr>renderPassDescriptor :=
                       (renderPassDescriptor s1)\<lparr>depthLoadAction := Some LoadActionClear\<rparr>\<rparr>;
             geometry = (if useModel s2 then model s2 else cube s2);
             cmds1 = cmds @
               [CreateRenderCommandEncoder (renderPassDescriptor s2),
                SetRenderPipelineState CubeRenderPipelineState,
                SetDepthStencilState,
                SetVertexBuffer (vertexBuffer geometry) 0 0]
         in case draw_loop L cameraMatrix lightDirection geometry 0 cubeLength (s2, cmds1) of
              Thrown e f' \<Rightarrow> Thrown e f'
            | Done (s3, cmds2) \<Rightarrow> Done (s3, cmds2 @ [EndEncoding])))"

text \<open>Lines 291-306: the pass of the light helper.\<close>

definition encodeLightHelperPass ::
  "('c, 'm) libs \<Rightarrow> 'm \<Rightarrow> ('c, 'm) frame \<Rightarrow> ('c, 'm) frame outcome" where
  "encodeLightHelperPass L cameraMatrix f =
     (case f of (s, cmds) \<Rightarrow>
        (let s1 = s\<lparr>renderPassDescriptor :=
                      (renderPassDescriptor s)\<lparr>colorLoadAction := Some LoadActionLoad\<rparr>\<rparr>;
             s2 = s1\<lparr>renderPassDescriptor :=
                       (renderPassDescriptor s1)\<lparr>depthLoadAction := Some LoadActionLoad\<rparr>\<rparr>;
             cmds1 = cmds @
               [CreateRenderCommandEncoder (renderPassDescriptor s2),
                SetRenderPipelineState LightHelperRenderPipelineState,
                SetDepthStencilState,
                SetVertexBuffer (vertexBuffer (cube s2)) 0 0]
         in case lightHelper s2 of
              None \<Rightarrow> Thrown TypeError (s2, cmds1)
            | Some lh \<Rightarrow>
                (let lightMMatrix = getModelMtx L lh;
                     lightMVPMatrix = mat4_multiply L cameraMatrix lightMMatrix
                 in case vertexUniform lh of
                      None \<Rightarrow> Thrown TypeError (s2, cmds1)
                    | Some r \<Rightarrow>
                        (let s3 = s2\<lparr>vertexUniformHeap :=
                                       (vertexUniformHeap s2)
                                         [r := (vertexUniformHeap s2 ! r)
                                            \<lparr>mvpMatrix := Some lightMVPMatrix\<rparr>]\<rparr>
                         in Done (s3, cmds1 @
                              [SetVertexBuffer (buffer (vertexUniformHeap s3 ! r)) 0 1,
                               DrawPrimitives PrimitiveLinestrip 0 (numVertices (cube s3)),
                               EndEncoding])))))"

text \<open>
  What one call of \<open>render\<close> leaves behind: the instance, the commands encoded into the
  frame's command buffer, the exception that ended the call (if any), and whether
  \<open>requestAnimationFrame\<close> was called to schedule the next tick.
\<close>

record ('c, 'm) tick =
  tickState :: "('c, 'm) main"
  commands :: "gpu_command list"
  thrown :: "js_error option"
  nextTickRequested :: bool

definition aborted :: "js_error \<Rightarrow> ('c, 'm) frame \<Rightarrow> ('c, 'm) tick" where
  "aborted e f = \<lparr>tickState = fst f, commands = snd f, thrown = Some e, nextTickRequested = False\<rparr>"

text \<open>Lines 233-237.\<close>

definition lightDirectionAt :: "nat \<Rightarrow> real list" where
  "lightDirectionAt t = (let rad = real t / 100 in [cos rad, 0.4, sin rad])"

definition moveLightHelper :: "real list \<Rightarrow> scene_object \<Rightarrow> scene_object" where
  "moveLightHelper lightDirection lh =
     lh\<lparr>x := lightDirection ! 0 * 80, y := lightDirection ! 1 * 80, z := lightDirection ! 2 * 80\<rparr>"

text \<open>
  \<open>render\<close>, lines 229-315. The argument \<open>nextDrawable\<close> is what \<open>this.gpu.nextDrawable()\<close>
  returns in this tick: \<open>None\<close> when no presentable target is available.
\<close>

definition render :: "('c, 'm) libs \<Rightarrow> drawable option \<Rightarrow> ('c, 'm) main \<Rightarrow> ('c, 'm) tick" where
  "render L nextDrawable s =
     (let lightDirection = lightDirectionAt (time s)
      in case lightHelper s of
           None \<Rightarrow> aborted TypeError (s, [])
         | Some lh \<Rightarrow>
             (let s1 = s\<lparr>lightHelper := Some (moveLightHelper lightDirection lh)\<rparr>;
                  cubeLength = length (cubeList s1)
              in case update_loop 0 cubeLength s1 of
                   Thrown e s2 \<Rightarrow> aborted e (s2, [])
                 | Done s2 \<Rightarrow>
                     (let s3 = s2\<lparr>time := time s2 + 1\<rparr>;
                          s4 = s3\<lparr>camera := upDate L 0.1 (camera s3)\<rparr>;
                          cameraMatrix = getCameraMtx L (camera s4)
                      in case nextDrawable of
                           None \<Rightarrow> aborted TypeError (s4, [])
                         | Some d \<Rightarrow>
                             (let s5 = s4\<lparr>renderPassDescriptor :=
                                            (renderPassDescriptor s4)
                                              \<lparr>colorTexture := Some (drawableTexture d)\<rparr>\<rparr>
                              in case encodeCubePass L cameraMatrix lightDirection cubeLength (s5, []) of
                                   Thrown e f \<Rightarrow> aborted e f
                                 | Done f1 \<Rightarrow>
                                     (case encodeLightHelperPass L cameraMatrix f1 of
                                        Thrown e f \<Rightarrow> aborted e f
                                      | Done (s6, cmds) \<Rightarrow>
                                          \<lparr>tickState = s6,
                                           commands = cmds @ [PresentDrawable d, Commit],
                                           thrown = None,
                                           nextTickRequested = True\<rparr>)))))"

section \<open>init and the UI handlers\<close>

datatype shader_function = ShaderFunction string

text \<open>
  What \<open>init\<close> finds in its environment: whether \<open>window\<close> has \<open>WebGPURenderingContext\<close>,
  the values of the GUI panel, the shader library (\<open>functionWithName\<close> as a lookup), the
  cube and the loaded model after \<open>createBuffer\<close>, a new render pass descriptor, the camera
  after its set-up, the values of \<open>Math.random()\<close> and the first drawable.
\<close>

record 'c startup =
  webGPUInWindow :: bool
  panelNum :: nat
  panelUseModel :: bool
  shaderLibrary :: "(string \<Rightarrow> shader_function option) option"
  cubePrimitive :: primitive
  loadedModel :: primitive
  newRenderPassDescriptor :: render_pass_descriptor
  initialCamera :: 'c
  initRandom :: "nat \<Rightarrow> real"
  firstDrawable :: "drawable option"

text \<open>
  What \<open>init\<close> leaves behind: the class name it gave to \<open>document.body\<close> (\<open>None\<close>: not
  touched), the exception that ended it (if any), and the first call of \<open>render\<close>
  (\<open>None\<close>: the render loop was not entered).
\<close>

record ('c, 'm) started =
  bodyClassName :: "string option"
  initThrown :: "js_error option"
  firstTick :: "('c, 'm) tick option"

text \<open>
  \<open>init\<close>, lines 52-181. The fields that \<open>resetInstance\<close> does not read (model, camera,
  time) are already in the record when it is called at line 154.
\<close>

definition init :: "('c, 'm) libs \<Rightarrow> 'c startup \<Rightarrow> ('c, 'm) started" where
  "init L env =
     (if \<not> webGPUInWindow env
      then \<lparr>bodyClassName = Some ''error'', initThrown = None, firstTick = None\<rparr>
      else
        (case shaderLibrary env of
           None \<Rightarrow> \<lparr>bodyClassName = None, initThrown = Some TypeError, firstTick = None\<rparr>
         | Some functionWithName \<Rightarrow>
             (let vertexFunction = functionWithName ''vertex_main'';
                  vertexFunction2 = functionWithName ''vertex_main2'';
                  fragmentFunction = functionWithName ''fragment_main''
              in if vertexFunction = None \<or> vertexFunction2 = None \<or> fragmentFunction = None
                 then \<lparr>bodyClassName = None, initThrown = None, firstTick = None\<rparr>
                 else
                   (let descriptor = (newRenderPassDescriptor env)
                          \<lparr>colorStoreAction := Some StoreActionStore,
                           clearColor := [0.3, 0.6, 0.8, 1.0],
                           depthStoreAction := Some StoreActionStore,
                           clearDepth := 1.0,
                           depthTexture := Some DepthTexture\<rparr>;
                        s0 = \<lparr>cube = cubePrimitive env, model = loadedModel env,
                              useModel = panelUseModel env, cubeNum = panelNum env,
                              cubeList = [], cubeUniformList = [], lightHelper = None,
                              vertexUniformHeap = [], renderPassDescriptor = descriptor,
                              camera = initialCamera env, time = 0\<rparr>
                    in case resetInstance L (initRandom env) s0 of
                         Thrown e s1 \<Rightarrow>
                           \<lparr>bodyClassName = None, initThrown = Some e, firstTick = None\<rparr>
                       | Done s1 \<Rightarrow>
                           (case allocVertexUniform L s1 of
                              (r, s2) \<Rightarrow>
                                (let helper = (newSceneObject L)
                                       \<lparr>rotationX := 45 * RAD, rotationZ := 45 * RAD,
                                        vertexUniform := Some r\<rparr>;
                                     s3 = s2\<lparr>lightHelper := Some helper,
                                             vertexUniformHeap :=
                                               (vertexUniformHeap s2)
                                                 [r := (vertexUniformHeap s2 ! r)
                                                    \<lparr>baseColor := COLOR_DIRECTIONAL_LIGHT\<rparr>]\<rparr>
                                 in \<lparr>bodyClassName = None, initThrown = None,
                                     firstTick = Some (render L (firstDrawable env) s3)\<rparr>))))))"

text \<open>The two \<open>onFinishChange\<close> handlers of lines 70-79.\<close>

datatype ui_event = NumChanged nat | UseModelChanged bool

definition onFinishChange ::
  "('c, 'm) libs \<Rightarrow> (nat \<Rightarrow> real) \<Rightarrow> ui_event \<Rightarrow> ('c, 'm) main \<Rightarrow> ('c, 'm) main outcome" where
  "onFinishChange L rnd ev s =
     (case ev of
        NumChanged v \<Rightarrow> resetInstance L rnd (s\<lparr>cubeNum := v\<rparr>)
      | UseModelChanged v \<Rightarrow> resetInstance L rnd (s\<lparr>useModel := v\<rparr>))"

text \<open>A sequence of UI changes, each with the random numbers its rebuild draws.\<close>

fun uiChanges :: "('c, 'm) libs \<Rightarrow> (ui_event \<times> (nat \<Rightarrow> real)) list \<Rightarrow> ('c, 'm) main \<Rightarrow> ('c, 'm) main" where
  "uiChanges L [] s = s"
| "uiChanges L ((ev, rnd) # evs) s = uiChanges L evs (result (onFinishChange L rnd ev s))"

section \<open>The pool: bindings, free list and invariants\<close>

definition slotOf :: "scene_object option \<Rightarrow> uniform_ref option" where
  "slotOf e = (case e of None \<Rightarrow> None | Some obj \<Rightarrow> vertexUniform obj)"

text \<open>The VertexUniform bound to each entry of \<open>cubeList\<close>, in pool order.\<close>

definition liveSlots :: "('c, 'm) main \<Rightarrow> uniform_ref option list" where
  "liveSlots s = map slotOf (cubeList s)"

definition poolSlots :: "('c, 'm) main \<Rightarrow> uniform_ref option list" where
  "poolSlots s = liveSlots s @ cubeUniformList s"

definition helperSlot :: "('c, 'm) main \<Rightarrow> uniform_ref option" where
  "helperSlot s = (case lightHelper s of None \<Rightarrow> None | Some lh \<Rightarrow> vertexUniform lh)"

text \<open>
  The VertexUniforms that \<open>resetInstance\<close> has created so far: all that exist, except the
  one \<open>init\<close> creates for the light helper.
\<close>

definition poolCreated :: "('c, 'm) main \<Rightarrow> uniform_ref set" where
  "poolCreated s = {r. r < length (vertexUniformHeap s) \<and> Some r \<noteq> helperSlot s}"

definition helperSlotValid :: "('c, 'm) main \<Rightarrow> bool" where
  "helperSlotValid s =
     (case helperSlot s of None \<Rightarrow> True | Some r \<Rightarrow> r < length (vertexUniformHeap s))"

text \<open>
  The pool invariant: every entry of \<open>cubeList\<close> is an object, every object and every entry
  of the free list holds a VertexUniform, no VertexUniform occurs twice among them, and
  together they are exactly the VertexUniforms created for the pool.
\<close>

definition poolInv :: "('c, 'm) main \<Rightarrow> bool" where
  "poolInv s \<longleftrightarrow>
     None \<notin> set (cubeList s) \<and> None \<notin> set (poolSlots s) \<and> distinct (poolSlots s) \<and>
     set (poolSlots s) = Some ` poolCreated s \<and> helperSlotValid s"

definition renderReady :: "('c, 'm) main \<Rightarrow> bool" where
  "renderReady s \<longleftrightarrow> poolInv s \<and> helperSlot s \<noteq> None"

definition coloured :: "('c, 'm) libs \<Rightarrow> scene_object \<Rightarrow> 'm vertex_uniform \<Rightarrow> 'm vertex_uniform" where
  "coloured L obj u = u\<lparr>baseColor := instanceColor L (x obj) (z obj),
                        ambientLightColor := COLOR_AMBIENT_LIGHT,
                        directionalLightColor := COLOR_DIRECTIONAL_LIGHT\<rparr>"

text \<open>Every object's VertexUniform carries the colour computed from the object's placement.\<close>

definition colourInv :: "('c, 'm) libs \<Rightarrow> ('c, 'm) main \<Rightarrow> bool" where
  "colourInv L s \<longleftrightarrow>
     (\<forall>obj r. Some obj \<in> set (cubeList s) \<and> vertexUniform obj = Some r \<longrightarrow>
        baseColor (vertexUniformHeap s ! r) = instanceColor L (x obj) (z obj))"

definition otherFields ::
  "('c, 'm) main \<Rightarrow> primitive \<times> primitive \<times> bool \<times> nat \<times> scene_object option \<times> render_pass_descriptor \<times> 'c \<times> nat" where
  "otherFields s =
     (cube s, model s, useModel s, cubeNum s, lightHelper s, renderPassDescriptor s, camera s, time s)"

text \<open>The number of VertexUniforms the pool holds: bound to objects or on the free list.\<close>

definition poolSize :: "('c, 'm) main \<Rightarrow> nat" where
  "poolSize s = length (cubeList s) + length (cubeUniformList s)"

section \<open>What a tick leaves alone, and what it encodes\<close>

text \<open>The fields of a pooled object that \<open>render\<close> does not assign.\<close>

definition objectFixed ::
  "scene_object \<Rightarrow> real \<times> real \<times> real \<times> real \<times> real \<times> real \<times> real \<times> uniform_ref option" where
  "objectFixed obj =
     (x obj, y obj, z obj, rotationZ obj, scaleX obj, scaleY obj, scaleZ obj, vertexUniform obj)"

text \<open>The fields of the light helper that \<open>render\<close> does not assign.\<close>

definition helperFixed ::
  "scene_object \<Rightarrow> real \<times> real \<times> real \<times> real \<times> real \<times> real \<times> uniform_ref option" where
  "helperFixed obj =
     (rotationX obj, rotationY obj, rotationZ obj, scaleX obj, scaleY obj, scaleZ obj,
      vertexUniform obj)"

text \<open>The fields of a VertexUniform that \<open>render\<close> does not assign.\<close>

definition uniformFixed :: "'m vertex_uniform \<Rightarrow> gpu_buffer \<times> real list \<times> real list \<times> real list" where
  "uniformFixed u = (buffer u, baseColor u, ambientLightColor u, directionalLightColor u)"

text \<open>The fields of the render pass descriptor that \<open>render\<close> does not assign.\<close>

definition descriptorFixed ::
  "render_pass_descriptor \<Rightarrow> store_action option \<times> real list \<times> texture option \<times> store_action option \<times> real" where
  "descriptorFixed d =
     (colorStoreAction d, clearColor d, depthTexture d, depthStoreAction d, clearDepth d)"

definition tickFrame ::
  "('c, 'm) main \<Rightarrow>
     primitive \<times> primitive \<times> bool \<times> nat \<times> uniform_ref option list \<times>
     (real \<times> real \<times> real \<times> real \<times> real \<times> real \<times> real \<times> uniform_ref option) option list \<times>
     (real \<times> real \<times> real \<times> real \<times> real \<times> real \<times> uniform_ref option) option \<times>
     (gpu_buffer \<times> real list \<times> real list \<times> real list) list \<times>
     (store_action option \<times> real list \<times> texture option \<times> store_action option \<times> real)" where
  "tickFrame s =
     (cube s, model s, useModel s, cubeNum s, cubeUniformList s,
      map (map_option objectFixed) (cubeList s),
      map_option helperFixed (lightHelper s),
      map uniformFixed (vertexUniformHeap s),
      descriptorFixed (renderPassDescriptor s))"

text \<open>The pool after the animation step of frame \<open>t\<close>, the first entry having index \<open>i\<close>.\<close>

fun animateFrom :: "nat \<Rightarrow> nat \<Rightarrow> scene_object option list \<Rightarrow> scene_object option list" where
  "animateFrom t i [] = []"
| "animateFrom t i (e # es) = map_option (animate t i) e # animateFrom t (Suc i) es"

text \<open>The draw of one pooled object in the pass of the instances.\<close>

definition cubeDraw :: "('c, 'm) main \<Rightarrow> primitive \<Rightarrow> scene_object option \<Rightarrow> gpu_command list" where
  "cubeDraw s geometry e =
     (case slotOf e of
        None \<Rightarrow> []
      | Some r \<Rightarrow>
          [SetVertexBuffer (buffer (vertexUniformHeap s ! r)) 0 1,
           DrawPrimitives PrimitiveTriangle 0 (numVertices geometry)])"

text \<open>The render pass descriptor as each of the two encoders of a frame sees it.\<close>

definition passDescriptor :: "('c, 'm) main \<Rightarrow> drawable \<Rightarrow> load_action \<Rightarrow> render_pass_descriptor" where
  "passDescriptor s d a =
     (renderPassDescriptor s)
       \<lparr>colorTexture := Some (drawableTexture d), colorLoadAction := Some a,
        depthLoadAction := Some a\<rparr>"

definition cubePassCommands :: "('c, 'm) main \<Rightarrow> drawable \<Rightarrow> gpu_command list" where
  "cubePassCommands s d =
     (let geometry = (if useModel s then model s else cube s)
      in [CreateRenderCommandEncoder (passDescriptor s d LoadActionClear),
          SetRenderPipelineState CubeRenderPipelineState,
          SetDepthStencilState,
          SetVertexBuffer (vertexBuffer geometry) 0 0]
         @ concat (map (cubeDraw s geometry) (cubeList s))
         @ [EndEncoding])"

definition lightHelperPassCommands :: "('c, 'm) main \<Rightarrow> drawable \<Rightarrow> gpu_command list" where
  "lightHelperPassCommands s d =
     [CreateRenderCommandEncoder (passDescriptor s d LoadActionLoad),
      SetRenderPipelineState LightHelperRenderPipelineState,
      SetDepthStencilState,
      SetVertexBuffer (vertexBuffer (cube s)) 0 0]
     @ (case helperSlot s of
          None \<Rightarrow> []
        | Some r \<Rightarrow>
            [SetVertexBuffer (buffer (vertexUniformHeap s ! r)) 0 1,
             DrawPrimitives PrimitiveLinestrip 0 (numVertices (cube s)),
             EndEncoding])"

text \<open>The load actions (colour, depth) of the encoders a command buffer creates, in order.\<close>

fun encoderLoadActions :: "gpu_command list \<Rightarrow> (load_action option \<times> load_action option) list" where
  "encoderLoadActions [] = []"
| "encoderLoadActions (CreateRenderCommandEncoder d # cs) =
     (colorLoadAction d, depthLoadAction d) # encoderLoadActions cs"
| "encoderLoadActions (c # cs) = encoderLoadActions cs"

text \<open>The pipelines a command buffer binds, in order.\<close>

fun pipelineOrder :: "gpu_command list \<Rightarrow> pipeline list" where
  "pipelineOrder [] = []"
| "pipelineOrder (SetRenderPipelineState p # cs) = p # pipelineOrder cs"
| "pipelineOrder (c # cs) = pipelineOrder cs"

text \<open>Every pooled object holds a VertexUniform that exists.\<close>

definition slotsBound :: "('c, 'm) main \<Rightarrow> bool" where
  "slotsBound s \<longleftrightarrow>
     (\<forall>e \<in> set (cubeList s). \<exists>obj r. e = Some obj \<and> vertexUniform obj = Some r \<and>
        r < length (vertexUniformHeap s))"

text \<open>The fields of the instance other than the pool, the heap and the descriptor.\<close>

definition sceneFields ::
  "('c, 'm) main \<Rightarrow> primitive \<times> primitive \<times> bool \<times> nat \<times> scene_object option \<times> 'c \<times> nat" where
  "sceneFields s = (cube s, model s, useModel s, cubeNum s, lightHelper s, camera s, time s)"

text \<open>The \<open>k\<close>-th pooled object is the one the rebuild placed in its \<open>k\<close>-th iteration.\<close>

definition placedInv :: "('c, 'm) libs \<Rightarrow> (nat \<Rightarrow> real) \<Rightarrow> real \<Rightarrow> ('c, 'm) main \<Rightarrow> bool" where
  "placedInv L rnd cubeScale s \<longleftrightarrow>
     (\<forall>k < length (cubeList s).
        \<exists>vu. cubeList s ! k = Some ((placedObject L rnd cubeScale k)\<lparr>vertexUniform := vu\<rparr>))"

section \<open>The render loop\<close>

text \<open>
  \<open>render\<close> schedules itself with \<open>requestAnimationFrame\<close> as its last statement. The ticks
  that run, given what \<open>nextDrawable()\<close> returns in each: a tick runs only if the one
  before it requested it.
\<close>

fun renderLoop :: "('c, 'm) libs \<Rightarrow> drawable option list \<Rightarrow> ('c, 'm) main \<Rightarrow> ('c, 'm) tick list" where
  "renderLoop L [] s = []"
| "renderLoop L (nd # nds) s =
     render L nd s #
       (if nextTickRequested (render L nd s)
        then renderLoop L nds (tickState (render L nd s)) else [])"

text \<open>The base colour and the placement in the XZ plane of the \<open>i\<close>-th pooled object.\<close>

definition colourOf :: "('c, 'm) main \<Rightarrow> nat \<Rightarrow> real list option" where
  "colourOf s i =
     (case js_index (cubeList s) i of
        None \<Rightarrow> None
      | Some obj \<Rightarrow>
          (case vertexUniform obj of
             None \<Rightarrow> None
           | Some r \<Rightarrow> Some (baseColor (vertexUniformHeap s ! r))))"

definition placementOf :: "('c, 'm) main \<Rightarrow> nat \<Rightarrow> (real \<times> real) option" where
  "placementOf s i = map_option (\<lambda>obj. (x obj, z obj)) (js_index (cubeList s) i)"

section \<open>A concrete instance\<close>

text \<open>
  A small instance on which the hypotheses of the theorems below are checked: an empty
  pool and a light helper that holds the only VertexUniform.
\<close>

definition demoObject :: scene_object where
  "demoObject =
     \<lparr>x = 0, y = 0, z = 0, rotationX = 0, rotationY = 0, rotationZ = 0,
      scaleX = 1, scaleY = 1, scaleZ = 1, vertexUniform = None\<rparr>"

definition demoUniform :: "unit vertex_uniform" where
  "demoUniform =
     \<lparr>buffer = UniformBuffer 0, mvpMatrix = None, modelMatrix = None, baseColor = [],
      ambientLightColor = [], directionalLightColor = [], directionalLightDirection = []\<rparr>"

definition demoLibs :: "(unit, unit) libs" where
  "demoLibs =
     \<lparr>newSceneObject = demoObject, newVertexUniform = demoUniform,
      getModelMtx = (\<lambda>obj. ()), mat4_multiply = (\<lambda>a b. ()),
      upDate = (\<lambda>dt c. c), getCameraMtx = (\<lambda>c. ()),
      createFromHSV = (\<lambda>h s v. (v, v, v))\<rparr>"

definition demoDescriptor :: render_pass_descriptor where
  "demoDescriptor =
     \<lparr>colorTexture = None, colorLoadAction = None, colorStoreAction = Some StoreActionStore,
      clearColor = [0.3, 0.6, 0.8, 1.0], depthTexture = Some DepthTexture,
      depthLoadAction = None, depthStoreAction = Some StoreActionStore, clearDepth = 1.0\<rparr>"

definition demoMain :: "(unit, unit) main" where
  "demoMain =
     \<lparr>cube = \<lparr>vertexBuffer = GeometryBuffer 0, numVertices = 36\<rparr>,
      model = \<lparr>vertexBuffer = GeometryBuffer 1, numVertices = 2904\<rparr>,
      useModel = False, cubeNum = 0, cubeList = [], cubeUniformList = [],
      lightHelper = Some (demoObject\<lparr>vertexUniform := Some 0\<rparr>),
      vertexUniformHeap = [demoUniform],
      renderPassDescriptor = demoDescriptor, camera = (), time = 0\<rparr>"

definition demoDrawable :: drawable where
  "demoDrawable = \<lparr>drawableTexture = DrawableTexture 0\<rparr>"

text \<open>The same instance with one pooled object.\<close>

definition demoMain1 :: "(unit, unit) main" where
  "demoMain1 =
     demoMain\<lparr>cubeNum := 1,
              cubeList := [Some (demoObject\<lparr>vertexUniform := Some 1\<rparr>)],
              vertexUniformHeap := [demoUniform, demoUniform\<lparr>buffer := UniformBuffer 1\<rparr>]\<rparr>"

text \<open>A start-up in which the shader library lacks \<open>vertex_main2\<close>.\<close>

definition demoStartup :: "unit startup" where
  "demoStartup =
     \<lparr>webGPUInWindow = True, panelNum = 1000, panelUseModel = False,
      shaderLibrary =
        Some (\<lambda>name. if name = ''vertex_main2'' then None else Some (ShaderFunction name)),
      cubePrimitive = \<lparr>vertexBuffer = GeometryBuffer 0, numVertices = 36\<rparr>,
      loadedModel = \<lparr>vertexBuffer = GeometryBuffer 1, numVertices = 2904\<rparr>,
      newRenderPassDescriptor = demoDescriptor, initialCamera = (),
      initRandom = (\<lambda>k. 0), firstDrawable = Some demoDrawable\<rparr>"

section \<open>Proofs\<close>

subsection \<open>The invariant, field by field\<close>

lemma helperSlot_update [simp]:
  "helperSlot (s\<lparr>cubeList := a\<rparr>) = helperSlot s"
  "helperSlot (s\<lparr>cubeUniformList := b\<rparr>) = helperSlot s"
  "helperSlot (s\<lparr>vertexUniformHeap := c\<rparr>) = helperSlot s"
  "helperSlot (s\<lparr>renderPassDescriptor := d\<rparr>) = helperSlot s"
  "helperSlot (s\<lparr>camera := e\<rparr>) = helperSlot s"
  "helperSlot (s\<lparr>time := f\<rparr>) = helperSlot s"
  "helperSlot (s\<lparr>cubeNum := g\<rparr>) = helperSlot s"
  "helperSlot (s\<lparr>useModel := h\<rparr>) = helperSlot s"
  by (simp_all add: helperSlot_def)

lemma poolInv_alt:
  "poolInv s \<longleftrightarrow>
     None \<notin> set (cubeList s) \<and> None \<notin> set (liveSlots s) \<and> None \<notin> set (cubeUniformList s) \<and>
     distinct (liveSlots s) \<and> distinct (cubeUniformList s) \<and>
     set (liveSlots s) \<inter> set (cubeUniformList s) = {} \<and>
     set (liveSlots s) \<union> set (cubeUniformList s) =
       Some ` {r. r < length (vertexUniformHeap s) \<and> Some r \<noteq> helperSlot s} \<and>
     (\<forall>r. helperSlot s = Some r \<longrightarrow> r < length (vertexUniformHeap s))"
  by (auto simp: poolInv_def poolSlots_def poolCreated_def helperSlotValid_def split: option.splits)

subsection \<open>The release loop\<close>

lemma release_loop_Done:
  "i \<le> len \<Longrightarrow> len = length (cubeList s) \<Longrightarrow> None \<notin> set (drop i (cubeList s)) \<Longrightarrow>
   release_loop i len s =
     Done (s\<lparr>cubeUniformList := cubeUniformList s @ map slotOf (drop i (cubeList s)),
             cubeList := take i (cubeList s) @ replicate (len - i) None\<rparr>)"
proof (induction i len s rule: release_loop.induct)
  case (1 i len s)
  show ?case
  proof (cases "i < len")
    case False
    with 1 show ?thesis by (subst release_loop.simps) simp
  next
    case True
    with 1(3) have lt: "i < length (cubeList s)" by simp
    then have dr: "drop i (cubeList s) = cubeList s ! i # drop (Suc i) (cubeList s)"
      by (simp add: Cons_nth_drop_Suc)
    with 1(4) obtain obj where ob: "cubeList s ! i = Some obj" by (cases "cubeList s ! i") auto
    let ?s = "s\<lparr>cubeUniformList := cubeUniformList s @ [vertexUniform obj],
                  cubeList := (cubeList s)[i := None]\<rparr>"
    have idx: "js_index (cubeList s) i = Some obj" using lt ob by (simp add: js_index_def)
    have IH: "release_loop (Suc i) len ?s =
       Done (?s\<lparr>cubeUniformList := cubeUniformList ?s @ map slotOf (drop (Suc i) (cubeList ?s)),
             cubeList := take (Suc i) (cubeList ?s) @ replicate (len - Suc i) None\<rparr>)"
      using 1(1)[OF True idx] True 1(3) 1(4) dr by simp
    have t: "take (Suc i) ((cubeList s)[i := None]) = take i (cubeList s) @ [None]"
      using lt by (simp add: take_Suc_conv_app_nth)
    have r: "replicate (len - i) (None::scene_object option) = None # replicate (len - Suc i) None"
      using True by (metis Suc_diff_Suc replicate_Suc)
    show ?thesis
      apply (subst release_loop.simps)
      using True idx IH t r dr ob by (simp add: slotOf_def)
  qed
qed

lemma release_all:
  assumes "None \<notin> set (cubeList s)"
  shows "release_loop 0 (length (cubeList s)) s =
     Done (s\<lparr>cubeUniformList := cubeUniformList s @ liveSlots s,
             cubeList := replicate (length (cubeList s)) None\<rparr>)"
  using release_loop_Done[of 0 "length (cubeList s)" s] assms by (simp add: liveSlots_def)

lemma poolInv_released:
  assumes "poolInv s"
  shows "poolInv (s\<lparr>cubeUniformList := cubeUniformList s @ liveSlots s, cubeList := []\<rparr>)"
  using assms
  by (auto simp: poolInv_alt liveSlots_def)

subsection \<open>One iteration of the build loop\<close>

lemma build_body_reuse:
  assumes "cubeUniformList s = Some r # rest"
  shows "build_body L rnd sc i s =
     Done (s\<lparr>cubeUniformList := rest,
             vertexUniformHeap := (vertexUniformHeap s)
                [r := coloured L (placedObject L rnd sc i) (vertexUniformHeap s ! r)],
             cubeList := cubeList s @ [Some ((placedObject L rnd sc i)\<lparr>vertexUniform := Some r\<rparr>)]\<rparr>)"
  using assms by (simp add: build_body_def acquireUniform_def coloured_def)

lemma build_body_fresh:
  assumes "cubeUniformList s = []"
  shows "build_body L rnd sc i s =
     Done (s\<lparr>vertexUniformHeap := vertexUniformHeap s @
                [coloured L (placedObject L rnd sc i)
                   ((newVertexUniform L)\<lparr>buffer := UniformBuffer (length (vertexUniformHeap s))\<rparr>)],
             cubeList := cubeList s @
                [Some ((placedObject L rnd sc i)\<lparr>vertexUniform := Some (length (vertexUniformHeap s))\<rparr>)]\<rparr>)"
  using assms by (simp add: build_body_def acquireUniform_def allocVertexUniform_def coloured_def Let_def)

lemma poolInv_reuse:
  assumes "poolInv s" "cubeUniformList s = Some r # rest"
  shows "poolInv (s\<lparr>cubeUniformList := rest,
             vertexUniformHeap := (vertexUniformHeap s)[r := u],
             cubeList := cubeList s @ [Some (obj\<lparr>vertexUniform := Some r\<rparr>)]\<rparr>)"
proof -
  have "Some r \<notin> set (liveSlots s)" "Some r \<notin> set rest" "distinct rest" "None \<notin> set rest"
    using assms by (auto simp: poolInv_alt)
  moreover have "insert (Some r) (set (liveSlots s) \<union> set rest) =
      Some ` {r. r < length (vertexUniformHeap s) \<and> Some r \<noteq> helperSlot s}"
    using assms by (auto simp: poolInv_alt)
  ultimately show ?thesis
    using assms by (auto simp: poolInv_alt liveSlots_def slotOf_def)
qed

lemma poolInv_fresh:
  assumes "poolInv s" "cubeUniformList s = []"
  shows "poolInv (s\<lparr>vertexUniformHeap := vertexUniformHeap s @ [u],
             cubeList := cubeList s @ [Some (obj\<lparr>vertexUniform := Some (length (vertexUniformHeap s))\<rparr>)]\<rparr>)"
proof -
  let ?P = "{r. r < length (vertexUniformHeap s) \<and> Some r \<noteq> helperSlot s}"
  have e: "set (liveSlots s) = Some ` ?P" "None \<notin> set (liveSlots s)" "distinct (liveSlots s)"
      "None \<notin> set (cubeList s)"
    using assms by (auto simp: poolInv_alt)
  have a: "Some (length (vertexUniformHeap s)) \<notin> set (liveSlots s)"
    unfolding e(1) by auto
  have b: "helperSlot s \<noteq> Some (length (vertexUniformHeap s))"
    using assms(1) by (auto simp: poolInv_alt)
  have c: "{r. r < Suc (length (vertexUniformHeap s)) \<and> Some r \<noteq> helperSlot s} =
      insert (length (vertexUniformHeap s)) ?P"
    using b by (auto simp: less_Suc_eq)
  have d: "\<forall>r. helperSlot s = Some r \<longrightarrow> r < Suc (length (vertexUniformHeap s))"
    using assms(1) by (auto simp: poolInv_alt less_Suc_eq)
  show ?thesis
    using assms(2) a c d e
    by (simp add: poolInv_alt liveSlots_def slotOf_def)
qed

lemma colourInv_reuse:
  assumes "poolInv s" "colourInv L s" "cubeUniformList s = Some r # rest"
  shows "colourInv L (s\<lparr>cubeUniformList := rest,
             vertexUniformHeap := (vertexUniformHeap s)[r := coloured L ob (vertexUniformHeap s ! r)],
             cubeList := cubeList s @ [Some (ob\<lparr>vertexUniform := Some r\<rparr>)]\<rparr>)"
proof -
  have rlt: "r < length (vertexUniformHeap s)"
    using assms(1,3) by (auto simp: poolInv_alt)
  have fresh: "\<And>obj. Some obj \<in> set (cubeList s) \<Longrightarrow> vertexUniform obj \<noteq> Some r"
  proof
    fix obj assume a: "Some obj \<in> set (cubeList s)" "vertexUniform obj = Some r"
    then have "Some r \<in> set (liveSlots s)"
      by (force simp: liveSlots_def slotOf_def)
    with assms(1,3) show False by (auto simp: poolInv_alt)
  qed
  show ?thesis
    using assms(2) rlt fresh
    by (auto simp: colourInv_def coloured_def nth_list_update)
qed

lemma colourInv_fresh:
  assumes "poolInv s" "colourInv L s" "cubeUniformList s = []"
  shows "colourInv L (s\<lparr>vertexUniformHeap := vertexUniformHeap s @ [coloured L ob u],
             cubeList := cubeList s @ [Some (ob\<lparr>vertexUniform := Some (length (vertexUniformHeap s))\<rparr>)]\<rparr>)"
proof -
  have old: "\<And>obj r. Some obj \<in> set (cubeList s) \<Longrightarrow> vertexUniform obj = Some r \<Longrightarrow>
      r < length (vertexUniformHeap s)"
  proof -
    fix obj r assume a: "Some obj \<in> set (cubeList s)" "vertexUniform obj = Some r"
    then have "Some r \<in> set (liveSlots s)"
      by (force simp: liveSlots_def slotOf_def)
    with assms(1) show "r < length (vertexUniformHeap s)"
      by (auto simp: poolInv_alt)
  qed
  show ?thesis
    using assms(2) old
    by (auto simp: colourInv_def coloured_def nth_append)
qed

lemma build_body_step:
  assumes "poolInv s" "colourInv L s"
  shows "\<exists>s'. build_body L rnd sc i s = Done s' \<and> poolInv s' \<and> colourInv L s' \<and>
     otherFields s' = otherFields s \<and>
     length (cubeList s') = Suc (length (cubeList s)) \<and>
     length (cubeUniformList s') = length (cubeUniformList s) - 1 \<and>
     length (vertexUniformHeap s') =
       length (vertexUniformHeap s) + (if cubeUniformList s = [] then 1 else 0)"
proof (cases "cubeUniformList s")
  case Nil
  show ?thesis
    using build_body_fresh[OF Nil, of L rnd sc i] poolInv_fresh[OF assms(1) Nil]
      colourInv_fresh[OF assms Nil] Nil
    by (simp add: otherFields_def)
next
  case (Cons a rest)
  with assms(1) obtain r where a: "a = Some r"
    by (cases a) (auto simp: poolInv_alt)
  note c = Cons[unfolded a]
  show ?thesis
    using build_body_reuse[OF c, of L rnd sc i] poolInv_reuse[OF assms(1) c]
      colourInv_reuse[OF assms c] c
    by (simp add: otherFields_def)
qed

subsection \<open>The build loop and resetInstance\<close>

lemma build_loop_steps:
  assumes "poolInv s" "colourInv L s" "i \<le> n"
  shows "\<exists>s'. build_loop L rnd sc i n s = Done s' \<and> poolInv s' \<and> colourInv L s' \<and>
     otherFields s' = otherFields s \<and>
     length (cubeList s') = length (cubeList s) + (n - i) \<and>
     length (cubeUniformList s') = length (cubeUniformList s) - (n - i) \<and>
     length (vertexUniformHeap s') =
       length (vertexUniformHeap s) + ((n - i) - length (cubeUniformList s))"
  using assms
proof (induction L rnd sc i n s rule: build_loop.induct)
  case (1 L rnd sc i n s)
  show ?case
  proof (cases "i < n")
    case False
    with 1 show ?thesis by (subst build_loop.simps) simp
  next
    case True
    from build_body_step[OF 1(2,3), of rnd sc i] obtain s1 where
      b: "build_body L rnd sc i s = Done s1" and p: "poolInv s1" and c: "colourInv L s1"
      and o: "otherFields s1 = otherFields s"
      and l: "length (cubeList s1) = Suc (length (cubeList s))"
      and f: "length (cubeUniformList s1) = length (cubeUniformList s) - 1"
      and h: "length (vertexUniformHeap s1) =
       length (vertexUniformHeap s) + (if cubeUniformList s = [] then 1 else 0)"
      by blast
    from 1(1)[OF True b p c] True obtain s' where
      r: "build_loop L rnd sc (Suc i) n s1 = Done s'" "poolInv s'" "colourInv L s'"
        "otherFields s' = otherFields s1"
        "length (cubeList s') = length (cubeList s1) + (n - Suc i)"
        "length (cubeUniformList s') = length (cubeUniformList s1) - (n - Suc i)"
        "length (vertexUniformHeap s') =
           length (vertexUniformHeap s1) + ((n - Suc i) - length (cubeUniformList s1))"
      by auto
    have "build_loop L rnd sc i n s = Done s'"
      by (subst build_loop.simps) (simp add: True b r(1))
    moreover have "length (vertexUniformHeap s') =
       length (vertexUniformHeap s) + ((n - i) - length (cubeUniformList s))"
      using r(7) h f True by (cases "cubeUniformList s") auto
    ultimately show ?thesis
      using r o l f True by auto
  qed
qed


lemma resetInstance_rebuilds:
  assumes "poolInv s"
  shows "\<exists>s'. resetInstance L rnd s = Done s' \<and> poolInv s' \<and> colourInv L s' \<and>
     otherFields s' = otherFields s \<and>
     length (cubeList s') = cubeNum s \<and>
     length (cubeUniformList s') = poolSize s - cubeNum s \<and>
     length (vertexUniformHeap s') = length (vertexUniformHeap s) + (cubeNum s - poolSize s)"
proof -
  let ?s2 = "s\<lparr>cubeUniformList := cubeUniformList s @ liveSlots s, cubeList := []\<rparr>"
  let ?sc = "if useModel s then 4.0 else 2.0 :: real"
  have n: "None \<notin> set (cubeList s)" using assms by (simp add: poolInv_def)
  have r: "resetInstance L rnd s = build_loop L rnd ?sc 0 (cubeNum s) ?s2"
    by (simp add: resetInstance_def release_all[OF n] Let_def)
  have c: "colourInv L ?s2" by (simp add: colourInv_def)
  from build_loop_steps[OF poolInv_released[OF assms] c, of 0 "cubeNum s" rnd ?sc]
  show ?thesis
    unfolding r by (simp add: otherFields_def poolSize_def liveSlots_def add.commute)
qed

lemma poolInv_settings [simp]:
  "poolInv (s\<lparr>cubeNum := n\<rparr>) = poolInv s"
  "poolInv (s\<lparr>useModel := b\<rparr>) = poolInv s"
  by (simp_all add: poolInv_alt liveSlots_def)

lemma poolSize_settings [simp]:
  "poolSize (s\<lparr>cubeNum := n\<rparr>) = poolSize s"
  "poolSize (s\<lparr>useModel := b\<rparr>) = poolSize s"
  by (simp_all add: poolSize_def)

lemma poolInv_card:
  assumes "poolInv s"
  shows "card (poolCreated s) = poolSize s"
proof -
  from assms have d: "distinct (poolSlots s)" and e: "set (poolSlots s) = Some ` poolCreated s"
    by (simp_all add: poolInv_def)
  have "card (poolCreated s) = card (Some ` poolCreated s)"
    by (simp add: card_image)
  also have "\<dots> = length (poolSlots s)"
    unfolding e[symmetric] using d by (rule distinct_card)
  finally show ?thesis by (simp add: poolSlots_def liveSlots_def poolSize_def)
qed

lemma onFinishChange_NumChanged:
  assumes "poolInv s"
  shows "\<exists>s'. onFinishChange L rnd (NumChanged n) s = Done s' \<and> poolInv s' \<and> colourInv L s' \<and>
     cubeNum s' = n \<and> length (cubeList s') = n \<and> poolSize s' = max (poolSize s) n \<and>
     length (vertexUniformHeap s') = length (vertexUniformHeap s) + (n - poolSize s) \<and>
     helperSlot s' = helperSlot s"
proof -
  from resetInstance_rebuilds[of "s\<lparr>cubeNum := n\<rparr>" L rnd] assms obtain s' where
    r: "resetInstance L rnd (s\<lparr>cubeNum := n\<rparr>) = Done s'" "poolInv s'" "colourInv L s'"
      "otherFields s' = otherFields (s\<lparr>cubeNum := n\<rparr>)"
      "length (cubeList s') = n" "length (cubeUniformList s') = poolSize s - n"
      "length (vertexUniformHeap s') = length (vertexUniformHeap s) + (n - poolSize s)"
    by auto
  from r(4) have "cubeNum s' = n" "helperSlot s' = helperSlot s"
    by (simp_all add: otherFields_def helperSlot_def)
  moreover have "poolSize s' = max (poolSize s) n"
    using r(5,6) by (simp add: poolSize_def max_def)
  ultimately show ?thesis
    using r by (simp add: onFinishChange_def)
qed

lemma onFinishChange_UseModelChanged:
  assumes "poolInv s"
  shows "\<exists>s'. onFinishChange L rnd (UseModelChanged b) s = Done s' \<and> poolInv s' \<and>
     colourInv L s' \<and> cubeNum s' = cubeNum s \<and> length (cubeList s') = cubeNum s"
proof -
  from resetInstance_rebuilds[of "s\<lparr>useModel := b\<rparr>" L rnd] assms obtain s' where
    r: "resetInstance L rnd (s\<lparr>useModel := b\<rparr>) = Done s'" "poolInv s'" "colourInv L s'"
      "otherFields s' = otherFields (s\<lparr>useModel := b\<rparr>)"
      "length (cubeList s') = cubeNum s"
    by auto
  from r(4) have "cubeNum s' = cubeNum s" by (simp add: otherFields_def)
  with r show ?thesis by (simp add: onFinishChange_def)
qed

lemma onFinishChange_poolInv:
  assumes "poolInv s"
  shows "poolInv (result (onFinishChange L rnd ev s))"
proof (cases ev)
  case (NumChanged n)
  with onFinishChange_NumChanged[OF assms, of L rnd n] show ?thesis by auto
next
  case (UseModelChanged b)
  with onFinishChange_UseModelChanged[OF assms, of L rnd b] show ?thesis by auto
qed

lemma uiChanges_poolInv:
  "poolInv s \<Longrightarrow> poolInv (uiChanges L evs s)"
proof (induction evs arbitrary: s)
  case Nil
  then show ?case by simp
next
  case (Cons e evs)
  obtain ev rnd where e: "e = (ev, rnd)" by (cases e)
  from Cons.IH[OF onFinishChange_poolInv[OF Cons.prems, of L rnd ev]] show ?case
    by (simp add: e)
qed

lemma uiChanges_snoc:
  "uiChanges L (evs @ [(ev, rnd)]) s = result (onFinishChange L rnd ev (uiChanges L evs s))"
  by (induction evs arbitrary: s) auto

lemma poolInv_bound:
  assumes "poolInv s" "i < length (cubeList s)"
  shows "\<exists>obj r. cubeList s ! i = Some obj \<and> vertexUniform obj = Some r \<and>
     r < length (vertexUniformHeap s)"
proof -
  let ?e = "cubeList s ! i"
  from assms have m: "?e \<in> set (cubeList s)" by simp
  with assms(1) obtain obj where o: "?e = Some obj" by (cases ?e) (auto simp: poolInv_alt)
  from m have "slotOf ?e \<in> set (liveSlots s) \<union> set (cubeUniformList s)"
    by (simp add: liveSlots_def)
  also from assms(1) have "\<dots> = Some ` {r. r < length (vertexUniformHeap s) \<and> Some r \<noteq> helperSlot s}"
    by (simp add: poolInv_alt)
  finally obtain r where "slotOf ?e = Some r" "r < length (vertexUniformHeap s)" by auto
  with o show ?thesis by (simp add: slotOf_def)
qed

lemma poolInv_unique:
  assumes "poolInv s" "i < length (cubeList s)" "j < length (cubeList s)" "i \<noteq> j"
  shows "slotOf (cubeList s ! i) \<noteq> slotOf (cubeList s ! j)"
proof -
  from assms(1) have "distinct (liveSlots s)" by (simp add: poolInv_alt)
  with assms(2-4) have "liveSlots s ! i \<noteq> liveSlots s ! j"
    by (simp add: distinct_conv_nth liveSlots_def)
  with assms(2,3) show ?thesis by (simp add: liveSlots_def)
qed

lemma build_body_heap:
  "length (vertexUniformHeap (result (build_body L rnd sc i s))) =
     length (vertexUniformHeap s) + (if cubeUniformList s = [] then 1 else 0)"
proof (cases "cubeUniformList s")
  case Nil
  with build_body_fresh[OF Nil, of L rnd sc i] show ?thesis by simp
next
  case (Cons a rest)
  show ?thesis
  proof (cases a)
    case None
    with Cons show ?thesis by (simp add: build_body_def acquireUniform_def)
  next
    case (Some r)
    with Cons build_body_reuse[of s r rest L rnd sc i] show ?thesis by simp
  qed
qed

subsection \<open>Start-up\<close>

lemma init_without_webgpu:
  assumes "\<not> webGPUInWindow env"
  shows "init L env = \<lparr>bodyClassName = Some ''error'', initThrown = None, firstTick = None\<rparr>"
  using assms by (simp add: init_def)

lemma init_missing_function:
  assumes "webGPUInWindow env" "shaderLibrary env = Some f"
    "f ''vertex_main'' = None \<or> f ''vertex_main2'' = None \<or> f ''fragment_main'' = None"
  shows "init L env = \<lparr>bodyClassName = None, initThrown = None, firstTick = None\<rparr>"
  using assms by (auto simp: init_def Let_def)

lemma init_enters_loop:
  assumes "webGPUInWindow env" "shaderLibrary env = Some f"
    "f ''vertex_main'' \<noteq> None" "f ''vertex_main2'' \<noteq> None" "f ''fragment_main'' \<noteq> None"
  shows "\<exists>s. renderReady s \<and> time s = 0 \<and> length (cubeList s) = panelNum env \<and>
     useModel s = panelUseModel env \<and>
     init L env = \<lparr>bodyClassName = None, initThrown = None,
                    firstTick = Some (render L (firstDrawable env) s)\<rparr>"
proof -
  let ?d = "(newRenderPassDescriptor env)
      \<lparr>colorStoreAction := Some StoreActionStore, clearColor := [0.3, 0.6, 0.8, 1.0],
       depthStoreAction := Some StoreActionStore, clearDepth := 1.0,
       depthTexture := Some DepthTexture\<rparr>"
  let ?s0 = "\<lparr>cube = cubePrimitive env, model = loadedModel env,
      useModel = panelUseModel env, cubeNum = panelNum env,
      cubeList = [], cubeUniformList = [], lightHelper = None,
      vertexUniformHeap = [], renderPassDescriptor = ?d,
      camera = initialCamera env, time = 0\<rparr> :: ('a, 'b) main"
  have p0: "poolInv ?s0" by (simp add: poolInv_alt liveSlots_def helperSlot_def)
  from resetInstance_rebuilds[OF p0, of L "initRandom env"] obtain s1 where
    r: "resetInstance L (initRandom env) ?s0 = Done s1" and p1: "poolInv s1"
    and o: "otherFields s1 = otherFields ?s0" and l: "length (cubeList s1) = panelNum env"
    by auto
  from o have f1: "lightHelper s1 = None" "time s1 = 0" "useModel s1 = panelUseModel env"
    by (simp_all add: otherFields_def)
  let ?r = "length (vertexUniformHeap s1)"
  let ?h = "(newSceneObject L)\<lparr>rotationX := 45 * RAD, rotationZ := 45 * RAD, vertexUniform := Some ?r\<rparr>"
  let ?u = "(newVertexUniform L)\<lparr>buffer := UniformBuffer ?r, baseColor := COLOR_DIRECTIONAL_LIGHT\<rparr>"
  let ?s3 = "s1\<lparr>lightHelper := Some ?h, vertexUniformHeap := vertexUniformHeap s1 @ [?u]\<rparr>"
  have i: "init L env = \<lparr>bodyClassName = None, initThrown = None,
                    firstTick = Some (render L (firstDrawable env) ?s3)\<rparr>"
    using assms r by (auto simp: init_def Let_def allocVertexUniform_def)
  have h1: "helperSlot s1 = None" using f1 by (simp add: helperSlot_def)
  have h3: "helperSlot ?s3 = Some ?r" by (simp add: helperSlot_def)
  have e: "{r. r < Suc ?r \<and> r \<noteq> ?r} = {r. r < ?r}" by auto
  have p3: "poolInv ?s3"
    using p1 h1 e unfolding poolInv_alt h3 by (simp add: liveSlots_def)
  have "renderReady ?s3" using p3 h3 by (simp add: renderReady_def)
  with i l f1 show ?thesis by (intro exI[of _ ?s3]) simp
qed

subsection \<open>The animation loop\<close>

lemma animateFrom_length [simp]: "length (animateFrom t i es) = length es"
  by (induction es arbitrary: i) auto

lemma animateFrom_nth:
  "j < length es \<Longrightarrow> animateFrom t i es ! j = map_option (animate t (i + j)) (es ! j)"
proof (induction es arbitrary: i j)
  case Nil
  then show ?case by simp
next
  case (Cons e es)
  then show ?case by (cases j) auto
qed

lemma update_loop_Done:
  "i \<le> len \<Longrightarrow> len = length (cubeList s) \<Longrightarrow> None \<notin> set (drop i (cubeList s)) \<Longrightarrow>
   update_loop i len s =
     Done (s\<lparr>cubeList := take i (cubeList s) @ animateFrom (time s) i (drop i (cubeList s))\<rparr>)"
proof (induction i len s rule: update_loop.induct)
  case (1 i len s)
  show ?case
  proof (cases "i < len")
    case False
    with 1 show ?thesis by (subst update_loop.simps) simp
  next
    case True
    with 1(3) have lt: "i < length (cubeList s)" by simp
    then have dr: "drop i (cubeList s) = cubeList s ! i # drop (Suc i) (cubeList s)"
      by (simp add: Cons_nth_drop_Suc)
    with 1(4) obtain obj where ob: "cubeList s ! i = Some obj" by (cases "cubeList s ! i") auto
    let ?s = "s\<lparr>cubeList := (cubeList s)[i := Some (animate (time s) i obj)]\<rparr>"
    have idx: "js_index (cubeList s) i = Some obj" using lt ob by (simp add: js_index_def)
    have IH: "update_loop (Suc i) len ?s =
       Done (?s\<lparr>cubeList := take (Suc i) (cubeList ?s) @
                animateFrom (time ?s) (Suc i) (drop (Suc i) (cubeList ?s))\<rparr>)"
      using 1(1)[OF True idx] True 1(3) 1(4) dr by simp
    have t: "take (Suc i) ((cubeList s)[i := Some (animate (time s) i obj)]) =
        take i (cubeList s) @ [Some (animate (time s) i obj)]"
      using lt by (simp add: take_Suc_conv_app_nth)
    show ?thesis
      apply (subst update_loop.simps)
      using True idx IH t dr ob by simp
  qed
qed

lemma update_loop_all:
  assumes "None \<notin> set (cubeList s)"
  shows "update_loop 0 (length (cubeList s)) s =
     Done (s\<lparr>cubeList := animateFrom (time s) 0 (cubeList s)\<rparr>)"
  using update_loop_Done[of 0 "length (cubeList s)" s] assms by simp

lemma update_loop_frame:
  "tickFrame (result (update_loop i len s)) = tickFrame s \<and>
   otherFields (result (update_loop i len s)) = otherFields s \<and>
   vertexUniformHeap (result (update_loop i len s)) = vertexUniformHeap s"
proof (induction i len s rule: update_loop.induct)
  case (1 i len s)
  show ?case
  proof (cases "i < len")
    case False
    then show ?thesis by (subst (1 2 3) update_loop.simps) simp
  next
    case True
    show ?thesis
    proof (cases "js_index (cubeList s) i")
      case None
      with True show ?thesis by (subst (1 2 3) update_loop.simps) simp
    next
      case (Some obj)
      then have lt: "i < length (cubeList s)" and ob: "cubeList s ! i = Some obj"
        by (auto simp: js_index_def split: if_splits)
      have fx: "objectFixed (animate (time s) i obj) = objectFixed obj"
        by (simp add: animate_def objectFixed_def)
      have "map (map_option objectFixed) ((cubeList s)[i := Some (animate (time s) i obj)]) =
          map (map_option objectFixed) (cubeList s)"
        using lt ob fx by (simp add: map_update) (metis list_update_id map_update option.simps(9))
      then show ?thesis
        using 1[OF True Some] True Some
        by (subst (1 2 3) update_loop.simps) (simp add: tickFrame_def otherFields_def)
    qed
  qed
qed

subsection \<open>The pass of the instances\<close>

lemma map_update_same:
  assumes "f v = f (xs ! r)"
  shows "map f (xs[r := v]) = map f xs"
proof (cases "r < length xs")
  case True
  with assms show ?thesis by (simp add: map_update) (metis list_update_id nth_map length_map)
next
  case False
  then have "xs[r := v] = xs" by (simp add: list_update_beyond)
  then show ?thesis by simp
qed

lemma poolInv_slotsBound: "poolInv s \<Longrightarrow> slotsBound s"
proof -
  assume p: "poolInv s"
  show ?thesis
    unfolding slotsBound_def
  proof
    fix e assume e: "e \<in> set (cubeList s)"
    with p obtain obj where o: "e = Some obj" by (cases e) (auto simp: poolInv_alt)
    from e have "slotOf e \<in> set (liveSlots s) \<union> set (cubeUniformList s)"
      by (simp add: liveSlots_def)
    also from p have "\<dots> = Some ` {r. r < length (vertexUniformHeap s) \<and> Some r \<noteq> helperSlot s}"
      by (simp add: poolInv_alt)
    finally obtain r where r: "slotOf e = Some r" "r < length (vertexUniformHeap s)"
      by auto
    with o show "\<exists>obj r. e = Some obj \<and> vertexUniform obj = Some r \<and> r < length (vertexUniformHeap s)"
      by (simp add: slotOf_def)
  qed
qed

lemma tickFrame_heap:
  assumes "tickFrame s' = tickFrame s"
  shows "length (vertexUniformHeap s') = length (vertexUniformHeap s)"
    and "r < length (vertexUniformHeap s) \<Longrightarrow>
         buffer (vertexUniformHeap s' ! r) = buffer (vertexUniformHeap s ! r)"
proof -
  from assms have m: "map uniformFixed (vertexUniformHeap s') = map uniformFixed (vertexUniformHeap s)"
    by (simp add: tickFrame_def)
  then show l: "length (vertexUniformHeap s') = length (vertexUniformHeap s)"
    by (rule map_eq_imp_length_eq)
  assume r: "r < length (vertexUniformHeap s)"
  have "uniformFixed (vertexUniformHeap s' ! r) = map uniformFixed (vertexUniformHeap s') ! r"
    using r l by simp
  also have "\<dots> = uniformFixed (vertexUniformHeap s ! r)"
    using r m by simp
  finally show "buffer (vertexUniformHeap s' ! r) = buffer (vertexUniformHeap s ! r)"
    by (simp add: uniformFixed_def)
qed

lemma draw_body_frame:
  "tickFrame (fst (result (draw_body L cm ld g i (s, cmds)))) = tickFrame s \<and>
   cubeList (fst (result (draw_body L cm ld g i (s, cmds)))) = cubeList s \<and>
   otherFields (fst (result (draw_body L cm ld g i (s, cmds)))) = otherFields s"
  by (auto simp: draw_body_def Let_def tickFrame_def otherFields_def uniformFixed_def
      intro!: map_update_same split: option.splits)

lemma draw_body_Done:
  assumes "slotsBound s" "i < length (cubeList s)"
  shows "\<exists>s'. draw_body L cm ld g i (s, cmds) = Done (s', cmds @ cubeDraw s g (cubeList s ! i))"
proof -
  from assms(2) have "cubeList s ! i \<in> set (cubeList s)" by simp
  with assms(1) obtain obj r where
    o: "cubeList s ! i = Some obj" "vertexUniform obj = Some r" "r < length (vertexUniformHeap s)"
    unfolding slotsBound_def by blast
  then show ?thesis
    using assms(2) by (simp add: draw_body_def js_index_def Let_def cubeDraw_def slotOf_def)
qed

lemma slotsBound_frame:
  assumes "tickFrame s' = tickFrame s" "cubeList s' = cubeList s" "slotsBound s"
  shows "slotsBound s'"
  using assms tickFrame_heap(1)[OF assms(1)] by (simp add: slotsBound_def)

lemma cubeDraw_frame:
  assumes "tickFrame s' = tickFrame s" "slotsBound s" "e \<in> set (cubeList s)"
  shows "cubeDraw s' g e = cubeDraw s g e"
proof -
  from assms(2,3) obtain obj r where
    o: "e = Some obj" "vertexUniform obj = Some r" "r < length (vertexUniformHeap s)"
    by (auto simp: slotsBound_def)
  with tickFrame_heap(2)[OF assms(1) o(3)] show ?thesis
    by (simp add: cubeDraw_def slotOf_def)
qed

lemma draw_loop_frame:
  "tickFrame (fst (result (draw_loop L cm ld g i len f))) = tickFrame (fst f) \<and>
   cubeList (fst (result (draw_loop L cm ld g i len f))) = cubeList (fst f) \<and>
   otherFields (fst (result (draw_loop L cm ld g i len f))) = otherFields (fst f)"
proof (induction L cm ld g i len f rule: draw_loop.induct)
  case (1 L cm ld g i len f)
  obtain s cmds where f: "f = (s, cmds)" by (cases f)
  show ?case
  proof (cases "i < len")
    case False
    then show ?thesis by (subst (1 2 3) draw_loop.simps) simp
  next
    case True
    show ?thesis
    proof (cases "draw_body L cm ld g i f")
      case (Thrown e f')
      with True draw_body_frame[of L cm ld g i s cmds] f show ?thesis
        by (subst (1 2 3) draw_loop.simps) simp
    next
      case (Done f')
      with True draw_body_frame[of L cm ld g i s cmds] f 1[OF True Done] show ?thesis
        by (subst (1 2 3) draw_loop.simps) simp
    qed
  qed
qed

lemma draw_loop_Done:
  assumes "slotsBound s" "i \<le> len" "len = length (cubeList s)"
  shows "\<exists>s'. draw_loop L cm ld g i len (s, cmds) =
      Done (s', cmds @ concat (map (cubeDraw s g) (drop i (cubeList s))))"
  using assms
proof (induction L cm ld g i len "(s, cmds)" arbitrary: s cmds rule: draw_loop.induct)
  case (1 L cm ld g i len)
  show ?case
  proof (cases "i < len")
    case False
    with 1 show ?thesis by (subst draw_loop.simps) simp
  next
    case True
    with 1(4) have lt: "i < length (cubeList s)" by simp
    from draw_body_Done[OF 1(2) lt, of L cm ld g cmds] obtain s1 where
      b: "draw_body L cm ld g i (s, cmds) = Done (s1, cmds @ cubeDraw s g (cubeList s ! i))"
      by blast
    from draw_body_frame[of L cm ld g i s cmds] b have
      fr: "tickFrame s1 = tickFrame s" "cubeList s1 = cubeList s" by simp_all
    have sb: "slotsBound s1" by (rule slotsBound_frame[OF fr 1(2)])
    from 1(1)[OF True b sb] True 1(4) fr obtain s' where
      r: "draw_loop L cm ld g (Suc i) len (s1, cmds @ cubeDraw s g (cubeList s ! i)) =
        Done (s', (cmds @ cubeDraw s g (cubeList s ! i)) @
          concat (map (cubeDraw s1 g) (drop (Suc i) (cubeList s))))"
      by auto
    have "map (cubeDraw s1 g) (drop (Suc i) (cubeList s)) = map (cubeDraw s g) (drop (Suc i) (cubeList s))"
      by (rule map_cong[OF refl]) (auto intro!: cubeDraw_frame[OF fr(1) 1(2)] dest: in_set_dropD)
    then have "concat (map (cubeDraw s1 g) (drop (Suc i) (cubeList s))) =
        concat (map (cubeDraw s g) (drop (Suc i) (cubeList s)))"
      by (rule arg_cong)
    moreover have "drop i (cubeList s) = cubeList s ! i # drop (Suc i) (cubeList s)"
      using lt by (simp add: Cons_nth_drop_Suc)
    ultimately show ?thesis
      using r True b by (subst draw_loop.simps) simp
  qed
qed

subsection \<open>The two passes\<close>

lemma tickFrame_descriptor [simp]:
  "tickFrame (s\<lparr>renderPassDescriptor := (renderPassDescriptor s)\<lparr>colorLoadAction := a\<rparr>\<rparr>) = tickFrame s"
  "tickFrame (s\<lparr>renderPassDescriptor := (renderPassDescriptor s)\<lparr>depthLoadAction := a\<rparr>\<rparr>) = tickFrame s"
  "tickFrame (s\<lparr>renderPassDescriptor := (renderPassDescriptor s)\<lparr>colorTexture := b\<rparr>\<rparr>) = tickFrame s"
  "tickFrame (s\<lparr>time := t\<rparr>) = tickFrame s"
  "tickFrame (s\<lparr>camera := c\<rparr>) = tickFrame s"
  by (simp_all add: tickFrame_def descriptorFixed_def)

lemma otherFields_split:
  "otherFields s' = otherFields s \<longleftrightarrow>
     sceneFields s' = sceneFields s \<and> renderPassDescriptor s' = renderPassDescriptor s"
  by (auto simp: otherFields_def sceneFields_def)

lemma encodeCubePass_frame:
  "tickFrame (fst (result (encodeCubePass L cm ld len (s, cmds)))) = tickFrame s \<and>
   cubeList (fst (result (encodeCubePass L cm ld len (s, cmds)))) = cubeList s \<and>
   sceneFields (fst (result (encodeCubePass L cm ld len (s, cmds)))) = sceneFields s \<and>
   renderPassDescriptor (fst (result (encodeCubePass L cm ld len (s, cmds)))) =
     (renderPassDescriptor s)\<lparr>colorLoadAction := Some LoadActionClear,
                               depthLoadAction := Some LoadActionClear\<rparr>"
proof -
  let ?s2 = "s\<lparr>renderPassDescriptor :=
       (renderPassDescriptor s)\<lparr>colorLoadAction := Some LoadActionClear,
                                 depthLoadAction := Some LoadActionClear\<rparr>\<rparr>"
  let ?g = "if useModel s then model s else cube s"
  let ?c = "cmds @ [CreateRenderCommandEncoder (renderPassDescriptor ?s2),
                SetRenderPipelineState CubeRenderPipelineState,
                SetDepthStencilState,
                SetVertexBuffer (vertexBuffer ?g) 0 0]"
  let ?o = "draw_loop L cm ld ?g 0 len (?s2, ?c)"
  have e: "fst (result (encodeCubePass L cm ld len (s, cmds))) = fst (result ?o)"
    by (cases ?o) (auto simp: encodeCubePass_def Let_def split: prod.splits)
  have t: "tickFrame ?s2 = tickFrame s" by (simp add: tickFrame_def descriptorFixed_def)
  from draw_loop_frame[of L cm ld ?g 0 len "(?s2, ?c)"] t show ?thesis
    unfolding e by (simp add: otherFields_split sceneFields_def)
qed

lemma encodeCubePass_Done:
  assumes "slotsBound s" "len = length (cubeList s)"
  shows "\<exists>s'. encodeCubePass L cm ld len (s, cmds) =
      Done (s', cmds @
        [CreateRenderCommandEncoder
           ((renderPassDescriptor s)\<lparr>colorLoadAction := Some LoadActionClear,
                                     depthLoadAction := Some LoadActionClear\<rparr>),
         SetRenderPipelineState CubeRenderPipelineState,
         SetDepthStencilState,
         SetVertexBuffer (vertexBuffer (if useModel s then model s else cube s)) 0 0]
        @ concat (map (cubeDraw s (if useModel s then model s else cube s)) (cubeList s))
        @ [EndEncoding])"
proof -
  let ?s2 = "s\<lparr>renderPassDescriptor :=
       (renderPassDescriptor s)\<lparr>colorLoadAction := Some LoadActionClear,
                                 depthLoadAction := Some LoadActionClear\<rparr>\<rparr>"
  let ?g = "if useModel s then model s else cube s"
  let ?c = "cmds @ [CreateRenderCommandEncoder (renderPassDescriptor ?s2),
                SetRenderPipelineState CubeRenderPipelineState,
                SetDepthStencilState,
                SetVertexBuffer (vertexBuffer ?g) 0 0]"
  have sb: "slotsBound ?s2" using assms(1) by (simp add: slotsBound_def)
  have cd: "cubeDraw ?s2 ?g = cubeDraw s ?g"
    by (rule ext) (simp add: cubeDraw_def split: option.splits)
  from draw_loop_Done[OF sb, of 0 len L cm ld ?g ?c] assms(2) obtain s' where
    "draw_loop L cm ld ?g 0 len (?s2, ?c) = Done (s', ?c @ concat (map (cubeDraw s ?g) (cubeList s)))"
    unfolding cd by auto
  then show ?thesis
    by (cases "useModel s") (simp_all add: encodeCubePass_def Let_def)
qed

lemma encodeLightHelperPass_frame:
  "tickFrame (fst (result (encodeLightHelperPass L cm (s, cmds)))) = tickFrame s \<and>
   cubeList (fst (result (encodeLightHelperPass L cm (s, cmds)))) = cubeList s \<and>
   sceneFields (fst (result (encodeLightHelperPass L cm (s, cmds)))) = sceneFields s \<and>
   renderPassDescriptor (fst (result (encodeLightHelperPass L cm (s, cmds)))) =
     (renderPassDescriptor s)\<lparr>colorLoadAction := Some LoadActionLoad,
                               depthLoadAction := Some LoadActionLoad\<rparr>"
  by (auto simp: encodeLightHelperPass_def Let_def tickFrame_def sceneFields_def
      descriptorFixed_def uniformFixed_def intro!: map_update_same split: option.splits)

lemma encodeLightHelperPass_Done:
  assumes "helperSlot s = Some r" "r < length (vertexUniformHeap s)"
  shows "\<exists>s'. encodeLightHelperPass L cm (s, cmds) =
      Done (s', cmds @
        [CreateRenderCommandEncoder
           ((renderPassDescriptor s)\<lparr>colorLoadAction := Some LoadActionLoad,
                                     depthLoadAction := Some LoadActionLoad\<rparr>),
         SetRenderPipelineState LightHelperRenderPipelineState,
         SetDepthStencilState,
         SetVertexBuffer (vertexBuffer (cube s)) 0 0,
         SetVertexBuffer (buffer (vertexUniformHeap s ! r)) 0 1,
         DrawPrimitives PrimitiveLinestrip 0 (numVertices (cube s)),
         EndEncoding])"
  using assms
  by (auto simp: encodeLightHelperPass_def Let_def helperSlot_def split: option.splits)

subsection \<open>A tick\<close>

lemma helperFixed_move [simp]: "helperFixed (moveLightHelper ld lh) = helperFixed lh"
  by (simp add: helperFixed_def moveLightHelper_def)

lemma render_frame: "tickFrame (tickState (render L nd s)) = tickFrame s"
proof (cases "lightHelper s")
  case None
  then show ?thesis by (simp add: render_def aborted_def)
next
  case (Some lh)
  let ?ld = "lightDirectionAt (time s)"
  let ?s1 = "s\<lparr>lightHelper := Some (moveLightHelper ?ld lh)\<rparr>"
  let ?len = "length (cubeList s)"
  let ?o = "update_loop 0 ?len ?s1"
  have t1: "tickFrame ?s1 = tickFrame s" using Some by (simp add: tickFrame_def)
  have t2: "tickFrame (result ?o) = tickFrame s"
    using update_loop_frame[of 0 ?len ?s1] t1 by simp
  show ?thesis
  proof (cases ?o)
    case (Thrown e s2)
    with t2 Some show ?thesis by (simp add: render_def Let_def aborted_def)
  next
    case (Done s2)
    let ?s4 = "s2\<lparr>time := time s2 + 1, camera := upDate L 0.1 (camera s2)\<rparr>"
    have t4: "tickFrame ?s4 = tickFrame s" using t2 Done by simp
    show ?thesis
    proof (cases nd)
      case None
      with Some Done t4 show ?thesis by (simp add: render_def Let_def aborted_def)
    next
      case (Some d)
      let ?s5 = "?s4\<lparr>renderPassDescriptor :=
          (renderPassDescriptor ?s4)\<lparr>colorTexture := Some (drawableTexture d)\<rparr>\<rparr>"
      let ?cm = "getCameraMtx L (camera ?s4)"
      let ?o2 = "encodeCubePass L ?cm ?ld ?len (?s5, [])"
      have t5: "tickFrame ?s5 = tickFrame s" using t4 by (simp add: tickFrame_def descriptorFixed_def)
      have t6: "tickFrame (fst (result ?o2)) = tickFrame s"
        using encodeCubePass_frame[of L ?cm ?ld ?len ?s5 "[]"] t5 by simp
      have r: "render L nd s =
         (case ?o2 of
            Thrown e f \<Rightarrow> aborted e f
          | Done f1 \<Rightarrow>
              (case encodeLightHelperPass L ?cm f1 of
                 Thrown e f \<Rightarrow> aborted e f
               | Done (s6, cmds) \<Rightarrow>
                   \<lparr>tickState = s6, commands = cmds @ [PresentDrawable d, Commit],
                    thrown = None, nextTickRequested = True\<rparr>))"
        using \<open>lightHelper s = Some lh\<close> Done Some
        by (simp add: render_def Let_def cong: outcome.case_cong)
      show ?thesis
      proof (cases ?o2)
        case (Thrown e f)
        with t6 show ?thesis unfolding r by (simp add: aborted_def)
      next
        case D2: (Done f1)
        obtain s6 c6 where f1: "f1 = (s6, c6)" by (cases f1)
        have t7: "tickFrame s6 = tickFrame s" using t6 D2 f1 by simp
        have t8: "tickFrame (fst (result (encodeLightHelperPass L ?cm (s6, c6)))) = tickFrame s"
          using encodeLightHelperPass_frame[of L ?cm s6 c6] t7 by simp
        show ?thesis
        proof (cases "encodeLightHelperPass L ?cm (s6, c6)")
          case (Thrown e f)
          with t8 D2 f1 show ?thesis unfolding r by (simp add: aborted_def)
        next
          case D3: (Done f2)
          with t8 D2 f1 show ?thesis unfolding r by (cases f2) simp
        qed
      qed
    qed
  qed
qed

lemma render_no_drawable:
  "nextTickRequested (render L None s) = False \<and> commands (render L None s) = [] \<and>
   thrown (render L None s) = Some TypeError"
proof (cases "lightHelper s")
  case None
  then show ?thesis by (simp add: render_def aborted_def)
next
  case (Some lh)
  let ?s1 = "s\<lparr>lightHelper := Some (moveLightHelper (lightDirectionAt (time s)) lh)\<rparr>"
  have "\<And>e s2. update_loop 0 (length (cubeList s)) ?s1 = Thrown e s2 \<Longrightarrow> e = TypeError"
    by (case_tac e) simp
  with Some show ?thesis
    by (cases "update_loop 0 (length (cubeList s)) ?s1")
       (auto simp add: render_def Let_def aborted_def)
qed

lemma animate_slot [simp]: "vertexUniform (animate t i obj) = vertexUniform obj"
  by (simp add: animate_def)

lemma slotOf_animate [simp]: "slotOf (map_option (animate t i) e) = slotOf e"
  by (cases e) (simp_all add: slotOf_def)

lemma map_slotOf_animateFrom [simp]: "map slotOf (animateFrom t i es) = map slotOf es"
  by (induction es arbitrary: i) auto

lemma animateFrom_None: "None \<in> set (animateFrom t i es) \<longleftrightarrow> None \<in> set es"
  by (induction es arbitrary: i) auto

lemma animateFrom_mem:
  "e' \<in> set (animateFrom t i es) \<Longrightarrow> \<exists>e \<in> set es. \<exists>j. e' = map_option (animate t j) e"
  by (induction es arbitrary: i) auto

lemma cubeDraw_animateFrom:
  assumes "vertexUniformHeap s' = vertexUniformHeap s"
  shows "map (cubeDraw s' g) (animateFrom t i es) = map (cubeDraw s g) es"
  using assms by (induction es arbitrary: i) (auto simp: cubeDraw_def split: option.splits)

lemma slotsBound_animated:
  assumes "slotsBound s" "cubeList s' = animateFrom t i (cubeList s)"
    "vertexUniformHeap s' = vertexUniformHeap s"
  shows "slotsBound s'"
  unfolding slotsBound_def
proof
  fix e' assume "e' \<in> set (cubeList s')"
  with assms(2) obtain e j where e: "e \<in> set (cubeList s)" "e' = map_option (animate t j) e"
    using animateFrom_mem by metis
  with assms(1) obtain obj r where "e = Some obj" "vertexUniform obj = Some r"
     "r < length (vertexUniformHeap s)"
    unfolding slotsBound_def by blast
  with e(2) assms(3)
  show "\<exists>obj r. e' = Some obj \<and> vertexUniform obj = Some r \<and> r < length (vertexUniformHeap s')"
    by simp
qed

lemma None_in_map_option: "None \<in> set (map (map_option f) es) \<longleftrightarrow> None \<in> set es"
  by (induction es) auto

lemma slotOf_objectFixed:
  "slotOf e = (case map_option objectFixed e of None \<Rightarrow> None | Some (a, b, c, d, e, f, g, u) \<Rightarrow> u)"
  by (cases e) (simp_all add: slotOf_def objectFixed_def)

lemma tickFrame_liveSlots:
  assumes "tickFrame s' = tickFrame s"
  shows "liveSlots s' = liveSlots s"
proof -
  let ?g = "\<lambda>v. case v of None \<Rightarrow> None
      | Some (a :: real, b :: real, c :: real, d :: real, e :: real, f :: real, g :: real, u) \<Rightarrow> u"
  from assms have m: "map (map_option objectFixed) (cubeList s') = map (map_option objectFixed) (cubeList s)"
    by (simp add: tickFrame_def)
  have "liveSlots s' = map ?g (map (map_option objectFixed) (cubeList s'))"
    unfolding liveSlots_def map_map by (rule map_cong[OF refl]) (simp add: slotOf_objectFixed)
  also have "\<dots> = map ?g (map (map_option objectFixed) (cubeList s))"
    unfolding m ..
  also have "\<dots> = liveSlots s"
    unfolding liveSlots_def map_map by (rule map_cong[OF refl]) (simp add: slotOf_objectFixed)
  finally show ?thesis .
qed

lemma tickFrame_helperSlot:
  assumes "tickFrame s' = tickFrame s"
  shows "helperSlot s' = helperSlot s"
proof -
  from assms have h: "map_option helperFixed (lightHelper s') = map_option helperFixed (lightHelper s)"
    by (simp add: tickFrame_def)
  show ?thesis
  proof (cases "lightHelper s")
    case None
    with h show ?thesis by (simp add: helperSlot_def)
  next
    case (Some a)
    with h obtain b where "lightHelper s' = Some b" "helperFixed b = helperFixed a" by auto
    with Some show ?thesis by (simp add: helperSlot_def helperFixed_def)
  qed
qed

lemma tickFrame_poolInv:
  assumes "tickFrame s' = tickFrame s" "poolInv s"
  shows "poolInv s'"
proof -
  from assms(1) have m: "map (map_option objectFixed) (cubeList s') = map (map_option objectFixed) (cubeList s)"
    and f: "cubeUniformList s' = cubeUniformList s"
    by (simp_all add: tickFrame_def)
  have "None \<in> set (cubeList s') \<longleftrightarrow> None \<in> set (map (map_option objectFixed) (cubeList s'))"
    by (simp only: None_in_map_option)
  also have "\<dots> \<longleftrightarrow> None \<in> set (cubeList s)"
    unfolding m by (simp only: None_in_map_option)
  finally have nn: "None \<in> set (cubeList s') \<longleftrightarrow> None \<in> set (cubeList s)" .
  show ?thesis
    using assms(2) tickFrame_liveSlots[OF assms(1)] nn tickFrame_helperSlot[OF assms(1)] f
      tickFrame_heap(1)[OF assms(1)]
    by (simp add: poolInv_alt)
qed

lemma render_Done:
  assumes "renderReady s"
  shows "\<exists>s'. render L (Some d) s =
       \<lparr>tickState = s',
        commands = cubePassCommands s d @ lightHelperPassCommands s d @ [PresentDrawable d, Commit],
        thrown = None, nextTickRequested = True\<rparr> \<and>
     cubeList s' = animateFrom (time s) 0 (cubeList s) \<and>
     time s' = Suc (time s) \<and>
     camera s' = upDate L 0.1 (camera s) \<and>
     renderPassDescriptor s' = passDescriptor s d LoadActionLoad \<and>
     lightHelper s' = map_option (moveLightHelper (lightDirectionAt (time s))) (lightHelper s)"
proof -
  from assms have p: "poolInv s" and "helperSlot s \<noteq> None" by (simp_all add: renderReady_def)
  then obtain r where hs: "helperSlot s = Some r" by auto
  then obtain lh where lh: "lightHelper s = Some lh" "vertexUniform lh = Some r"
    by (auto simp: helperSlot_def split: option.splits)
  from p hs have rlt: "r < length (vertexUniformHeap s)" by (simp add: poolInv_alt)
  from p have nn: "None \<notin> set (cubeList s)" by (simp add: poolInv_alt)
  let ?ld = "lightDirectionAt (time s)"
  let ?len = "length (cubeList s)"
  let ?s1 = "s\<lparr>lightHelper := Some (moveLightHelper ?ld lh)\<rparr>"
  let ?s5 = "s\<lparr>lightHelper := Some (moveLightHelper ?ld lh),
               cubeList := animateFrom (time s) 0 (cubeList s),
               time := Suc (time s),
               camera := upDate L 0.1 (camera s),
               renderPassDescriptor :=
                 (renderPassDescriptor s)\<lparr>colorTexture := Some (drawableTexture d)\<rparr>\<rparr>"
  let ?cm = "getCameraMtx L (upDate L 0.1 (camera s))"
  let ?g = "if useModel s then model s else cube s"
  have "update_loop 0 (length (cubeList ?s1)) ?s1 =
      Done (?s1\<lparr>cubeList := animateFrom (time ?s1) 0 (cubeList ?s1)\<rparr>)"
    by (rule update_loop_all) (simp add: nn)
  then have u: "update_loop 0 ?len ?s1 =
      Done (?s1\<lparr>cubeList := animateFrom (time s) 0 (cubeList s)\<rparr>)"
    by simp
  have r: "render L (Some d) s =
     (case encodeCubePass L ?cm ?ld ?len (?s5, []) of
        Thrown e f \<Rightarrow> aborted e f
      | Done f1 \<Rightarrow>
          (case encodeLightHelperPass L ?cm f1 of
             Thrown e f \<Rightarrow> aborted e f
           | Done (s6, cmds) \<Rightarrow>
               \<lparr>tickState = s6, commands = cmds @ [PresentDrawable d, Commit],
                thrown = None, nextTickRequested = True\<rparr>))"
    using lh(1) u by (simp add: render_def Let_def cong: outcome.case_cong)
  have sb5: "slotsBound ?s5"
    by (rule slotsBound_animated[OF poolInv_slotsBound[OF p], of _ "time s" 0]) simp_all
  have cd: "concat (map (cubeDraw ?s5 ?g) (animateFrom (time s) 0 (cubeList s))) =
      concat (map (cubeDraw s ?g) (cubeList s))"
    by (rule arg_cong[where f = concat]) (rule cubeDraw_animateFrom, simp)
  from encodeCubePass_Done[OF sb5, of ?len L ?cm ?ld "[]"] obtain s6 where
    e1: "encodeCubePass L ?cm ?ld ?len (?s5, []) = Done (s6, cubePassCommands s d)"
    using cd by (cases "useModel s") (auto simp: cubePassCommands_def passDescriptor_def Let_def)
  from encodeCubePass_frame[of L ?cm ?ld ?len ?s5 "[]"] e1 have
    f6: "tickFrame s6 = tickFrame ?s5" "cubeList s6 = cubeList ?s5"
      "sceneFields s6 = sceneFields ?s5"
      "renderPassDescriptor s6 = (renderPassDescriptor ?s5)
         \<lparr>colorLoadAction := Some LoadActionClear, depthLoadAction := Some LoadActionClear\<rparr>"
    by simp_all
  from f6(3) have l6: "lightHelper s6 = Some (moveLightHelper ?ld lh)" "cube s6 = cube s"
    by (simp_all add: sceneFields_def)
  have h6: "helperSlot s6 = Some r"
    using l6 lh(2) by (simp add: helperSlot_def moveLightHelper_def)
  have rlt6: "r < length (vertexUniformHeap s6)"
    using tickFrame_heap(1)[OF f6(1)] rlt by simp
  have b6: "buffer (vertexUniformHeap s6 ! r) = buffer (vertexUniformHeap s ! r)"
    using tickFrame_heap(2)[OF f6(1), of r] rlt by simp
  from encodeLightHelperPass_Done[OF h6 rlt6, of L ?cm "cubePassCommands s d"] obtain s7 where
    e2: "encodeLightHelperPass L ?cm (s6, cubePassCommands s d) =
      Done (s7, cubePassCommands s d @ lightHelperPassCommands s d)"
    using b6 l6(2) f6(4) hs by (auto simp: lightHelperPassCommands_def passDescriptor_def)
  from encodeLightHelperPass_frame[of L ?cm s6 "cubePassCommands s d"] e2 have
    f7: "cubeList s7 = cubeList s6" "sceneFields s7 = sceneFields s6"
      "renderPassDescriptor s7 = (renderPassDescriptor s6)
         \<lparr>colorLoadAction := Some LoadActionLoad, depthLoadAction := Some LoadActionLoad\<rparr>"
    by simp_all
  have res: "render L (Some d) s =
       \<lparr>tickState = s7,
        commands = cubePassCommands s d @ lightHelperPassCommands s d @ [PresentDrawable d, Commit],
        thrown = None, nextTickRequested = True\<rparr>"
    unfolding r e1 by (simp add: e2)
  have c1: "cubeList s7 = animateFrom (time s) 0 (cubeList s)"
    using f7(1) f6(2) by simp
  have c2: "time s7 = Suc (time s)" "camera s7 = upDate L 0.1 (camera s)"
      "lightHelper s7 = map_option (moveLightHelper ?ld) (lightHelper s)"
    using f7(2) f6(3) lh(1) by (simp_all add: sceneFields_def)
  have c3: "renderPassDescriptor s7 = passDescriptor s d LoadActionLoad"
    using f7(3) f6(4) by (simp add: passDescriptor_def)
  show ?thesis
    by (rule exI[of _ s7]) (simp only: res c1 c2 c3 simp_thms)
qed

lemma demoMain_poolInv: "poolInv demoMain"
  by (auto simp: poolInv_alt liveSlots_def demoMain_def helperSlot_def)

lemma demoMain_renderReady: "renderReady demoMain"
  using demoMain_poolInv by (simp add: renderReady_def helperSlot_def demoMain_def)

section \<open>The pool after a resize\<close>

text \<open>
  C1. Starting from any instance whose pool is well formed (as \<open>init\<close> leaves it), after
  any sequence of UI changes followed by the request of \<open>N\<close> instances, the rebuild
  completes without an exception, \<open>cubeList\<close> holds exactly \<open>N\<close> objects, each of them
  holds a VertexUniform that exists, and no two of them hold the same one. This holds for
  every \<open>N\<close>, in particular in the slider's range from 1000 to 6000.
\<close>

theorem resize_gives_N_uniquely_bound_objects:
  assumes "poolInv s"
  shows "\<not> threw (onFinishChange L rnd (NumChanged N) (uiChanges L evs s)) \<and>
     length (cubeList (uiChanges L (evs @ [(NumChanged N, rnd)]) s)) = N \<and>
     (\<forall>i<N. \<exists>obj r. cubeList (uiChanges L (evs @ [(NumChanged N, rnd)]) s) ! i = Some obj \<and>
        vertexUniform obj = Some r \<and>
        r < length (vertexUniformHeap (uiChanges L (evs @ [(NumChanged N, rnd)]) s))) \<and>
     (\<forall>i<N. \<forall>j<N. i \<noteq> j \<longrightarrow>
        slotOf (cubeList (uiChanges L (evs @ [(NumChanged N, rnd)]) s) ! i) \<noteq>
        slotOf (cubeList (uiChanges L (evs @ [(NumChanged N, rnd)]) s) ! j))"
proof -
  let ?s0 = "uiChanges L evs s"
  have p0: "poolInv ?s0" by (rule uiChanges_poolInv[OF assms])
  from onFinishChange_NumChanged[OF p0, of L rnd N] obtain s' where
    d: "onFinishChange L rnd (NumChanged N) ?s0 = Done s'" and p: "poolInv s'"
    and l: "length (cubeList s') = N"
    by blast
  have e: "uiChanges L (evs @ [(NumChanged N, rnd)]) s = s'"
    by (simp add: uiChanges_snoc d)
  show ?thesis
    unfolding e using d l poolInv_bound[OF p] poolInv_unique[OF p] by simp
qed

theorem resize_gives_N_uniquely_bound_objects_witness:
  "poolInv demoMain \<and>
   length (cubeList (uiChanges demoLibs
     [(NumChanged 6000, \<lambda>k. 0), (NumChanged 1000, \<lambda>k. 0)] demoMain)) = 1000"
  using resize_gives_N_uniquely_bound_objects[OF demoMain_poolInv,
      of demoLibs "\<lambda>k. 0" 1000 "[(NumChanged 6000, \<lambda>k. 0)]"]
    demoMain_poolInv
  by simp

text \<open>
  C2. An iteration of the rebuild creates a VertexUniform exactly when the free list is
  empty. Requesting \<open>N1\<close>, then \<open>N2\<close>, then \<open>N1\<close> instances leaves as many pool
  VertexUniforms as there were before or as the larger request needs, whichever is more
  (from an empty pool: \<open>max N1 N2\<close>), and after each of the three rebuilds every
  VertexUniform created for the pool is held by exactly one object or is once on the free
  list: bindings and free list together enumerate them without repetition.
\<close>

theorem recycling_never_over_allocates:
  assumes "poolInv s"
    and "s1 = result (onFinishChange L rnd1 (NumChanged N1) s)"
    and "s2 = result (onFinishChange L rnd2 (NumChanged N2) s1)"
    and "s3 = result (onFinishChange L rnd3 (NumChanged N1) s2)"
  shows "length (vertexUniformHeap (result (build_body L rnd sc i s))) =
       length (vertexUniformHeap s) + (if cubeUniformList s = [] then 1 else 0) \<and>
     card (poolCreated s3) = max (card (poolCreated s)) (max N1 N2) \<and>
     length (vertexUniformHeap s3) =
       length (vertexUniformHeap s) + (max N1 N2 - card (poolCreated s)) \<and>
     distinct (poolSlots s1) \<and> set (poolSlots s1) = Some ` poolCreated s1 \<and>
     distinct (poolSlots s2) \<and> set (poolSlots s2) = Some ` poolCreated s2 \<and>
     distinct (poolSlots s3) \<and> set (poolSlots s3) = Some ` poolCreated s3"
proof -
  from onFinishChange_NumChanged[OF assms(1), of L rnd1 N1] assms(2) have
    a: "poolInv s1" "poolSize s1 = max (poolSize s) N1"
      "length (vertexUniformHeap s1) = length (vertexUniformHeap s) + (N1 - poolSize s)"
    by auto
  from onFinishChange_NumChanged[OF a(1), of L rnd2 N2] assms(3) have
    b: "poolInv s2" "poolSize s2 = max (poolSize s1) N2"
      "length (vertexUniformHeap s2) = length (vertexUniformHeap s1) + (N2 - poolSize s1)"
    by auto
  from onFinishChange_NumChanged[OF b(1), of L rnd3 N1] assms(4) have
    c: "poolInv s3" "poolSize s3 = max (poolSize s2) N1"
      "length (vertexUniformHeap s3) = length (vertexUniformHeap s2) + (N1 - poolSize s2)"
    by auto
  have "card (poolCreated s3) = max (card (poolCreated s)) (max N1 N2)"
    using a(2) b(2) c(2) poolInv_card[OF assms(1)] poolInv_card[OF c(1)] by (simp add: max_def)
  moreover have "length (vertexUniformHeap s3) =
       length (vertexUniformHeap s) + (max N1 N2 - card (poolCreated s))"
    using a(2,3) b(2,3) c(3) poolInv_card[OF assms(1)] by (simp add: max_def)
  ultimately show ?thesis
    using a(1) b(1) c(1) build_body_heap[of L rnd sc i s] by (simp add: poolInv_def)
qed

theorem recycling_never_over_allocates_witness:
  "poolInv demoMain \<and> poolCreated demoMain = {} \<and>
   card (poolCreated
     (result (onFinishChange demoLibs (\<lambda>k. 0) (NumChanged 3000)
       (result (onFinishChange demoLibs (\<lambda>k. 0) (NumChanged 1000)
         (result (onFinishChange demoLibs (\<lambda>k. 0) (NumChanged 3000) demoMain))))))) = 3000"
proof -
  have e: "poolCreated demoMain = {}"
    by (auto simp: poolCreated_def demoMain_def helperSlot_def)
  from recycling_never_over_allocates[OF demoMain_poolInv refl refl refl,
      where L = demoLibs and ?rnd1.0 = "\<lambda>k. 0" and ?N1.0 = 3000 and ?rnd2.0 = "\<lambda>k. 0"
        and ?N2.0 = 1000 and ?rnd3.0 = "\<lambda>k. 0"]
  show ?thesis using demoMain_poolInv e by simp
qed

lemma render_aborted_state:
  assumes "renderReady s"
  shows "tickState (render L None s) =
     s\<lparr>lightHelper := map_option (moveLightHelper (lightDirectionAt (time s))) (lightHelper s),
       cubeList := animateFrom (time s) 0 (cubeList s),
       time := Suc (time s),
       camera := upDate L 0.1 (camera s)\<rparr>"
proof -
  from assms have p: "poolInv s" and "helperSlot s \<noteq> None" by (simp_all add: renderReady_def)
  then obtain lh where lh: "lightHelper s = Some lh"
    by (auto simp: helperSlot_def split: option.splits)
  from p have nn: "None \<notin> set (cubeList s)" by (simp add: poolInv_alt)
  let ?s1 = "s\<lparr>lightHelper := Some (moveLightHelper (lightDirectionAt (time s)) lh)\<rparr>"
  have "update_loop 0 (length (cubeList ?s1)) ?s1 =
      Done (?s1\<lparr>cubeList := animateFrom (time ?s1) 0 (cubeList ?s1)\<rparr>)"
    by (rule update_loop_all) (simp add: nn)
  then have u: "update_loop 0 (length (cubeList s)) ?s1 =
      Done (?s1\<lparr>cubeList := animateFrom (time s) 0 (cubeList s)\<rparr>)"
    by simp
  show ?thesis
    using lh u by (simp add: render_def Let_def aborted_def)
qed

lemma render_cubeList:
  assumes "renderReady s"
  shows "cubeList (tickState (render L nd s)) = animateFrom (time s) 0 (cubeList s)"
proof (cases nd)
  case None
  with render_aborted_state[OF assms, of L] show ?thesis by simp
next
  case (Some d)
  with render_Done[OF assms, of L d] show ?thesis by auto
qed

lemma render_renderReady:
  assumes "renderReady s"
  shows "renderReady (tickState (render L nd s))"
  using assms tickFrame_poolInv[OF render_frame, of s L nd]
    tickFrame_helperSlot[OF render_frame, of L nd s]
  by (simp add: renderReady_def)

lemma demoMain1_renderReady: "renderReady demoMain1"
  by (auto simp: renderReady_def poolInv_alt liveSlots_def slotOf_def demoMain1_def demoMain_def
      helperSlot_def less_Suc_eq)

subsection \<open>Reading a command buffer\<close>

lemma encoderLoadActions_append:
  "encoderLoadActions (as @ bs) = encoderLoadActions as @ encoderLoadActions bs"
  by (induction as rule: encoderLoadActions.induct) auto

lemma pipelineOrder_append:
  "pipelineOrder (as @ bs) = pipelineOrder as @ pipelineOrder bs"
  by (induction as rule: pipelineOrder.induct) auto

lemma cubeDraws_plain:
  "encoderLoadActions (concat (map (cubeDraw s g) es)) = [] \<and>
   pipelineOrder (concat (map (cubeDraw s g) es)) = []"
  by (induction es)
     (auto simp: cubeDraw_def encoderLoadActions_append pipelineOrder_append split: option.splits)

lemma frame_encoders:
  assumes "helperSlot s = Some r"
  shows "encoderLoadActions
       (cubePassCommands s d @ lightHelperPassCommands s d @ [PresentDrawable d, Commit]) =
     [(Some LoadActionClear, Some LoadActionClear), (Some LoadActionLoad, Some LoadActionLoad)]"
    and "pipelineOrder
       (cubePassCommands s d @ lightHelperPassCommands s d @ [PresentDrawable d, Commit]) =
     [CubeRenderPipelineState, LightHelperRenderPipelineState]"
  using assms cubeDraws_plain[of s "if useModel s then model s else cube s" "cubeList s"]
  by (simp_all add: cubePassCommands_def lightHelperPassCommands_def passDescriptor_def Let_def
      encoderLoadActions_append pipelineOrder_append)

lemma renderLoop_ready:
  assumes "renderReady s"
  shows "length (renderLoop L (map Some ds) s) = length ds \<and>
     (\<forall>t \<in> set (renderLoop L (map Some ds) s).
        thrown t = None \<and> nextTickRequested t \<and>
        encoderLoadActions (commands t) =
          [(Some LoadActionClear, Some LoadActionClear), (Some LoadActionLoad, Some LoadActionLoad)] \<and>
        pipelineOrder (commands t) = [CubeRenderPipelineState, LightHelperRenderPipelineState])"
  using assms
proof (induction ds arbitrary: s)
  case Nil
  then show ?case by simp
next
  case (Cons d ds)
  from Cons.prems obtain r where hs: "helperSlot s = Some r" by (auto simp: renderReady_def)
  from render_Done[OF Cons.prems, of L d] obtain s' where
    r: "render L (Some d) s =
       \<lparr>tickState = s',
        commands = cubePassCommands s d @ lightHelperPassCommands s d @ [PresentDrawable d, Commit],
        thrown = None, nextTickRequested = True\<rparr>"
    by blast
  have rr: "renderReady s'"
    using render_renderReady[OF Cons.prems, of L "Some d"] r by simp
  from Cons.IH[OF rr] frame_encoders[OF hs, of d] show ?case
    by (simp add: r)
qed

section \<open>A tick without a drawable\<close>

text \<open>
  C3, as the code has it. If \<open>nextDrawable()\<close> returns no drawable, \<open>render\<close> ends with an
  uncaught \<open>TypeError\<close> at line 259: nothing is encoded, presented or committed,
  \<open>requestAnimationFrame\<close> is not called, so the render loop stops with this tick. The
  simulation step made before the acquisition (light helper position, rotations, frame
  counter, camera) stays applied; nothing else of the instance changes.
\<close>

theorem no_drawable_ends_render_loop:
  "thrown (render L None s) = Some TypeError \<and>
   commands (render L None s) = [] \<and>
   \<not> nextTickRequested (render L None s) \<and>
   renderLoop L (None # nds) s = [render L None s] \<and>
   tickFrame (tickState (render L None s)) = tickFrame s \<and>
   (renderReady s \<longrightarrow>
      tickState (render L None s) =
        s\<lparr>lightHelper := map_option (moveLightHelper (lightDirectionAt (time s))) (lightHelper s),
          cubeList := animateFrom (time s) 0 (cubeList s),
          time := Suc (time s),
          camera := upDate L 0.1 (camera s)\<rparr>)"
  using render_no_drawable[of L s] render_frame[of L None s] render_aborted_state[of s L]
  by simp

theorem no_drawable_ends_render_loop_witness:
  "renderReady demoMain1 \<and>
   time (tickState (render demoLibs None demoMain1)) = 1 \<and>
   renderLoop demoLibs [None, Some demoDrawable] demoMain1 = [render demoLibs None demoMain1]"
  using no_drawable_ends_render_loop[of demoLibs demoMain1 "[Some demoDrawable]"]
    demoMain1_renderReady
  by (simp add: demoMain1_def demoMain_def)

theorem failed_acquisition_stops_loop_counterexample:
  "renderReady demoMain \<and>
   thrown (render demoLibs None demoMain) = Some TypeError \<and>
   \<not> nextTickRequested (render demoLibs None demoMain) \<and>
   length (renderLoop demoLibs [None, Some demoDrawable] demoMain) = 1"
  using render_no_drawable[of demoLibs demoMain] demoMain_renderReady by simp

section \<open>The two passes of a frame\<close>

text \<open>
  C5. From an instance that is ready to render, every tick of the render loop that gets a
  drawable completes and requests the next one, and its command buffer creates exactly two
  encoders: the first, bound to the cube pipeline, with load action clear for colour and
  depth, the second, bound to the light helper pipeline, with load action load for both.
  So pass 1 precedes pass 2 and only pass 1 clears. The first tick, which \<open>init\<close> runs
  after a successful start-up, is such a tick and leaves the instance ready to render, and
  so is every later one.
\<close>

theorem load_actions_on_every_tick:
  "(renderReady s \<longrightarrow>
      length (renderLoop L (map Some ds) s) = length ds \<and>
      (\<forall>t \<in> set (renderLoop L (map Some ds) s).
         thrown t = None \<and> nextTickRequested t \<and>
         encoderLoadActions (commands t) =
           [(Some LoadActionClear, Some LoadActionClear), (Some LoadActionLoad, Some LoadActionLoad)] \<and>
         pipelineOrder (commands t) = [CubeRenderPipelineState, LightHelperRenderPipelineState])) \<and>
   (webGPUInWindow env \<and> shaderLibrary env = Some f \<and> f ''vertex_main'' \<noteq> None \<and>
    f ''vertex_main2'' \<noteq> None \<and> f ''fragment_main'' \<noteq> None \<and> firstDrawable env = Some d \<longrightarrow>
      (\<exists>t0. firstTick (init L env) = Some t0 \<and> thrown t0 = None \<and> nextTickRequested t0 \<and>
         encoderLoadActions (commands t0) =
           [(Some LoadActionClear, Some LoadActionClear), (Some LoadActionLoad, Some LoadActionLoad)] \<and>
         pipelineOrder (commands t0) = [CubeRenderPipelineState, LightHelperRenderPipelineState] \<and>
         renderReady (tickState t0)))"
proof -
  have A: "renderReady s \<Longrightarrow>
      length (renderLoop L (map Some ds) s) = length ds \<and>
      (\<forall>t \<in> set (renderLoop L (map Some ds) s).
         thrown t = None \<and> nextTickRequested t \<and>
         encoderLoadActions (commands t) =
           [(Some LoadActionClear, Some LoadActionClear), (Some LoadActionLoad, Some LoadActionLoad)] \<and>
         pipelineOrder (commands t) = [CubeRenderPipelineState, LightHelperRenderPipelineState])"
    by (rule renderLoop_ready)
  have B: "\<exists>t0. firstTick (init L env) = Some t0 \<and> thrown t0 = None \<and> nextTickRequested t0 \<and>
         encoderLoadActions (commands t0) =
           [(Some LoadActionClear, Some LoadActionClear), (Some LoadActionLoad, Some LoadActionLoad)] \<and>
         pipelineOrder (commands t0) = [CubeRenderPipelineState, LightHelperRenderPipelineState] \<and>
         renderReady (tickState t0)"
    if a: "webGPUInWindow env \<and> shaderLibrary env = Some f \<and> f ''vertex_main'' \<noteq> None \<and>
      f ''vertex_main2'' \<noteq> None \<and> f ''fragment_main'' \<noteq> None \<and> firstDrawable env = Some d"
  proof -
    from init_enters_loop[of env f L] a obtain s0 where
      r: "renderReady s0"
      and i: "init L env = \<lparr>bodyClassName = None, initThrown = None,
                      firstTick = Some (render L (Some d) s0)\<rparr>"
      by auto
    from renderLoop_ready[OF r, of L "[d]"] render_renderReady[OF r, of L "Some d"] i
    show ?thesis by simp
  qed
  show ?thesis
    by (rule conjI[OF impI[OF A] impI[OF B]])
qed

theorem load_actions_on_every_tick_witness:
  "renderReady demoMain1 \<and>
   encoderLoadActions (commands (render demoLibs (Some demoDrawable) demoMain1)) =
     [(Some LoadActionClear, Some LoadActionClear), (Some LoadActionLoad, Some LoadActionLoad)] \<and>
   webGPUInWindow (demoStartup\<lparr>shaderLibrary := Some (\<lambda>name. Some (ShaderFunction name))\<rparr>) \<and>
   (\<exists>t0. firstTick (init demoLibs
             (demoStartup\<lparr>shaderLibrary := Some (\<lambda>name. Some (ShaderFunction name))\<rparr>)) = Some t0 \<and>
      encoderLoadActions (commands t0) =
        [(Some LoadActionClear, Some LoadActionClear), (Some LoadActionLoad, Some LoadActionLoad)])"
proof -
  let ?env = "demoStartup\<lparr>shaderLibrary := Some (\<lambda>name. Some (ShaderFunction name))\<rparr>"
  have e: "webGPUInWindow ?env" "shaderLibrary ?env = Some (\<lambda>name. Some (ShaderFunction name))"
      "firstDrawable ?env = Some demoDrawable"
    by (simp_all add: demoStartup_def)
  from load_actions_on_every_tick[of demoMain1 demoLibs "[demoDrawable]" ?env
      "\<lambda>name. Some (ShaderFunction name)" demoDrawable]
  show ?thesis
    using demoMain1_renderReady e by auto
qed

section \<open>The animation step\<close>

text \<open>
  C6. In a tick, the object at index \<open>i\<close> of the pool takes exactly one of the two
  branches, decided by the test on \<open>time + i * 7\<close>: either its \<open>rotationY\<close> grows by 0.2
  and its \<open>rotationX\<close> stays, or its \<open>rotationX\<close> grows by 0.01 and its \<open>rotationY\<close>
  stays; never both, never neither.
\<close>

theorem exactly_one_rotation_branch:
  assumes "renderReady s" "i < length (cubeList s)"
  shows "\<exists>obj obj'. cubeList s ! i = Some obj \<and>
     cubeList (tickState (render L nd s)) ! i = Some obj' \<and>
     ((spinBranch (time s) i \<and>
         rotationY obj' = rotationY obj + 0.2 \<and> rotationX obj' = rotationX obj) \<or>
      (\<not> spinBranch (time s) i \<and>
         rotationX obj' = rotationX obj + 0.01 \<and> rotationY obj' = rotationY obj)) \<and>
     (rotationY obj' \<noteq> rotationY obj) \<noteq> (rotationX obj' \<noteq> rotationX obj)"
proof -
  from assms have p: "poolInv s" by (simp add: renderReady_def)
  from poolInv_bound[OF p assms(2)] obtain obj where o: "cubeList s ! i = Some obj" by blast
  have "cubeList (tickState (render L nd s)) ! i = animateFrom (time s) 0 (cubeList s) ! i"
    by (simp add: render_cubeList[OF assms(1)])
  also have "\<dots> = Some (animate (time s) i obj)"
    using animateFrom_nth[OF assms(2), of "time s" 0] o by simp
  finally show ?thesis
    using o by (simp add: animate_def)
qed

theorem exactly_one_rotation_branch_witness:
  "renderReady demoMain1 \<and> (0::nat) < length (cubeList demoMain1) \<and>
   (\<exists>obj'. cubeList (tickState (render demoLibs (Some demoDrawable) demoMain1)) ! 0 = Some obj' \<and>
      rotationY obj' = 0.2 \<and> rotationX obj' = 0)"
proof -
  have t: "time demoMain1 = 0"
    and c: "cubeList demoMain1 = [Some (demoObject\<lparr>vertexUniform := Some 1\<rparr>)]"
    by (simp_all add: demoMain1_def demoMain_def)
  have b: "spinBranch 0 0"
    by (simp add: spinBranch_def toInt32_def js_rem_def)
  have l: "(0::nat) < length (cubeList demoMain1)" by (simp add: c)
  from exactly_one_rotation_branch[OF demoMain1_renderReady l, of demoLibs "Some demoDrawable"]
  show ?thesis
    using demoMain1_renderReady b by (auto simp: t c demoObject_def)
qed

section \<open>The light helper pass\<close>

text \<open>
  C8. In every tick that gets a drawable, the second pass binds the vertex buffer of the
  primitive cube at index 0 and draws the cube's vertex count as a line strip, whatever
  \<open>useModel\<close> is; the first pass binds the model's vertex buffer when \<open>useModel\<close> is set
  and the cube's otherwise.
\<close>

theorem light_helper_pass_uses_cube:
  assumes "renderReady s"
  shows "\<exists>r. helperSlot s = Some r \<and>
     commands (render L (Some d) s) =
       cubePassCommands s d @
       [CreateRenderCommandEncoder (passDescriptor s d LoadActionLoad),
        SetRenderPipelineState LightHelperRenderPipelineState,
        SetDepthStencilState,
        SetVertexBuffer (vertexBuffer (cube s)) 0 0,
        SetVertexBuffer (buffer (vertexUniformHeap s ! r)) 0 1,
        DrawPrimitives PrimitiveLinestrip 0 (numVertices (cube s)),
        EndEncoding,
        PresentDrawable d, Commit] \<and>
     take 4 (cubePassCommands s d) =
       [CreateRenderCommandEncoder (passDescriptor s d LoadActionClear),
        SetRenderPipelineState CubeRenderPipelineState,
        SetDepthStencilState,
        SetVertexBuffer (vertexBuffer (if useModel s then model s else cube s)) 0 0] \<and>
     pipelineOrder (cubePassCommands s d) = [CubeRenderPipelineState]"
proof -
  from assms obtain r where hs: "helperSlot s = Some r" by (auto simp: renderReady_def)
  from render_Done[OF assms, of L d] have
    c: "commands (render L (Some d) s) =
      cubePassCommands s d @ lightHelperPassCommands s d @ [PresentDrawable d, Commit]"
    by auto
  have p: "pipelineOrder (cubePassCommands s d) = [CubeRenderPipelineState]"
    using cubeDraws_plain[of s "if useModel s then model s else cube s" "cubeList s"]
    by (simp add: cubePassCommands_def Let_def pipelineOrder_append)
  show ?thesis
    using hs c p by (simp add: lightHelperPassCommands_def cubePassCommands_def Let_def)
qed

theorem light_helper_pass_uses_cube_witness:
  "renderReady (demoMain1\<lparr>useModel := True\<rparr>) \<and>
   drop 7 (commands (render demoLibs (Some demoDrawable) (demoMain1\<lparr>useModel := True\<rparr>))) =
     [CreateRenderCommandEncoder
        (demoDescriptor\<lparr>colorTexture := Some (DrawableTexture 0),
                         colorLoadAction := Some LoadActionLoad,
                         depthLoadAction := Some LoadActionLoad\<rparr>),
      SetRenderPipelineState LightHelperRenderPipelineState,
      SetDepthStencilState,
      SetVertexBuffer (GeometryBuffer 0) 0 0,
      SetVertexBuffer (UniformBuffer 0) 0 1,
      DrawPrimitives PrimitiveLinestrip 0 36,
      EndEncoding,
      PresentDrawable demoDrawable, Commit] \<and>
   commands (render demoLibs (Some demoDrawable) (demoMain1\<lparr>useModel := True\<rparr>)) ! 3 =
     SetVertexBuffer (GeometryBuffer 1) 0 0"
proof -
  have rr: "renderReady (demoMain1\<lparr>useModel := True\<rparr>)"
    using demoMain1_renderReady by (simp add: renderReady_def helperSlot_def)
  from light_helper_pass_uses_cube[OF rr, of demoLibs demoDrawable]
  show ?thesis
    using rr
    by (simp add: cubePassCommands_def cubeDraw_def slotOf_def passDescriptor_def Let_def
        helperSlot_def demoMain1_def demoMain_def demoDrawable_def demoUniform_def)
qed

section \<open>What a tick changes\<close>

text \<open>
  C9, as the code has it. A render tick assigns only the frame counter, the \<open>rotationX\<close>
  and \<open>rotationY\<close> of pooled objects, the position of the light helper, the matrices and
  the light direction in existing VertexUniforms, the camera (through its controller), and
  the colour texture and the two load actions of the reusable render pass descriptor.
  Whether it completes or ends with an exception, it changes neither the number of objects
  in the pool, nor the VertexUniform an object is bound to, nor the free list, nor the
  number of VertexUniforms or their GPU buffers, nor any other field.
\<close>

theorem tick_leaves_pool_alone:
  "length (cubeList (tickState (render L nd s))) = length (cubeList s) \<and>
   liveSlots (tickState (render L nd s)) = liveSlots s \<and>
   cubeUniformList (tickState (render L nd s)) = cubeUniformList s \<and>
   length (vertexUniformHeap (tickState (render L nd s))) = length (vertexUniformHeap s) \<and>
   map buffer (vertexUniformHeap (tickState (render L nd s))) = map buffer (vertexUniformHeap s) \<and>
   cubeNum (tickState (render L nd s)) = cubeNum s \<and>
   useModel (tickState (render L nd s)) = useModel s \<and>
   tickFrame (tickState (render L nd s)) = tickFrame s"
proof -
  let ?s' = "tickState (render L nd s)"
  have f: "tickFrame ?s' = tickFrame s" by (rule render_frame)
  then have m: "map (map_option objectFixed) (cubeList ?s') = map (map_option objectFixed) (cubeList s)"
    and u: "map uniformFixed (vertexUniformHeap ?s') = map uniformFixed (vertexUniformHeap s)"
    and o: "cubeUniformList ?s' = cubeUniformList s" "cubeNum ?s' = cubeNum s"
      "useModel ?s' = useModel s"
    by (simp_all add: tickFrame_def)
  from m have l: "length (cubeList ?s') = length (cubeList s)"
    by (rule map_eq_imp_length_eq)
  have "map buffer (vertexUniformHeap ?s') = map fst (map uniformFixed (vertexUniformHeap ?s'))"
    by (simp add: uniformFixed_def comp_def)
  also have "\<dots> = map buffer (vertexUniformHeap s)"
    unfolding u by (simp add: uniformFixed_def comp_def)
  finally have b: "map buffer (vertexUniformHeap ?s') = map buffer (vertexUniformHeap s)" .
  show ?thesis
    using f l o b tickFrame_liveSlots[OF f] tickFrame_heap(1)[OF f] by simp
qed

theorem tick_changes_descriptor_counterexample:
  "renderReady demoMain \<and>
   colorTexture (renderPassDescriptor demoMain) = None \<and>
   colorTexture (renderPassDescriptor (tickState (render demoLibs (Some demoDrawable) demoMain))) =
     Some (DrawableTexture 0)"
proof -
  from render_Done[OF demoMain_renderReady, of demoLibs demoDrawable] have
    "renderPassDescriptor (tickState (render demoLibs (Some demoDrawable) demoMain)) =
       passDescriptor demoMain demoDrawable LoadActionLoad"
    by auto
  then show ?thesis
    using demoMain_renderReady
    by (simp add: passDescriptor_def demoMain_def demoDescriptor_def demoDrawable_def)
qed

subsection \<open>Placement of the rebuilt objects\<close>

lemma build_body_placed:
  assumes "poolInv s" "placedInv L rnd sc s" "length (cubeList s) = i"
  shows "placedInv L rnd sc (result (build_body L rnd sc i s))"
proof (cases "cubeUniformList s")
  case Nil
  from assms(2,3) show ?thesis
    unfolding build_body_fresh[OF Nil] placedInv_def
    by (auto simp: nth_append less_Suc_eq)
next
  case (Cons a rest)
  with assms(1) obtain r where a: "a = Some r"
    by (cases a) (auto simp: poolInv_alt)
  from assms(2,3) show ?thesis
    unfolding build_body_reuse[OF Cons[unfolded a]] placedInv_def
    by (auto simp: nth_append less_Suc_eq)
qed

lemma build_loop_placed:
  assumes "poolInv s" "colourInv L s" "placedInv L rnd sc s" "length (cubeList s) = i"
  shows "placedInv L rnd sc (result (build_loop L rnd sc i n s))"
  using assms
proof (induction L rnd sc i n s rule: build_loop.induct)
  case (1 L rnd sc i n s)
  show ?case
  proof (cases "i < n")
    case False
    with 1(4) show ?thesis by (subst build_loop.simps) simp
  next
    case True
    from build_body_step[OF 1(2,3), of rnd sc i] obtain s1 where
      b: "build_body L rnd sc i s = Done s1" and p: "poolInv s1" and c: "colourInv L s1"
      and l: "length (cubeList s1) = Suc (length (cubeList s))"
      by blast
    have pl: "placedInv L rnd sc s1"
      using build_body_placed[OF 1(2) 1(4) 1(5)] b by simp
    have "placedInv L rnd sc (result (build_loop L rnd sc (Suc i) n s1))"
      using 1(1)[OF True b p c pl] l 1(5) by simp
    then show ?thesis
      by (subst build_loop.simps) (simp add: True b)
  qed
qed

lemma resetInstance_placed:
  assumes "poolInv s"
  shows "placedInv L rnd (if useModel s then 4.0 else 2.0) (result (resetInstance L rnd s))"
proof -
  let ?s2 = "s\<lparr>cubeUniformList := cubeUniformList s @ liveSlots s, cubeList := []\<rparr>"
  let ?sc = "if useModel s then 4.0 else 2.0 :: real"
  have n: "None \<notin> set (cubeList s)" using assms by (simp add: poolInv_alt)
  have r: "resetInstance L rnd s = build_loop L rnd ?sc 0 (cubeNum s) ?s2"
    by (simp add: resetInstance_def release_all[OF n] Let_def)
  have c: "colourInv L ?s2" by (simp add: colourInv_def)
  have pl: "placedInv L rnd ?sc ?s2" by (simp add: placedInv_def)
  show ?thesis
    unfolding r by (rule build_loop_placed[OF poolInv_released[OF assms] c pl]) simp
qed

lemma rebuilt_object:
  assumes "poolInv s" "i < cubeNum s"
  shows "placementOf (result (resetInstance L rnd s)) i =
       Some ((rnd (5 * i) - 0.5) * cubeRange, (rnd (5 * i + 2) - 0.5) * cubeRange) \<and>
     colourOf (result (resetInstance L rnd s)) i =
       Some (instanceColor L ((rnd (5 * i) - 0.5) * cubeRange) ((rnd (5 * i + 2) - 0.5) * cubeRange))"
proof -
  let ?s' = "result (resetInstance L rnd s)"
  from resetInstance_rebuilds[OF assms(1), of L rnd] have
    p: "poolInv ?s'" and c: "colourInv L ?s'" and l: "length (cubeList ?s') = cubeNum s"
    by auto
  from l assms(2) have i: "i < length (cubeList ?s')" by simp
  from resetInstance_placed[OF assms(1), of L rnd] i obtain sc vu where
    o: "cubeList ?s' ! i = Some ((placedObject L rnd sc i)\<lparr>vertexUniform := vu\<rparr>)"
    unfolding placedInv_def by blast
  let ?obj = "(placedObject L rnd sc i)\<lparr>vertexUniform := vu\<rparr>"
  from poolInv_bound[OF p i] o obtain r where r: "vu = Some r" by auto
  have m: "Some ?obj \<in> set (cubeList ?s')" using o i by (metis nth_mem)
  have "vertexUniform ?obj = Some r" using r by simp
  with c m have "baseColor (vertexUniformHeap ?s' ! r) = instanceColor L (x ?obj) (z ?obj)"
    unfolding colourInv_def by blast
  then show ?thesis
    using o i r by (simp add: placementOf_def colourOf_def js_index_def placedObject_def)
qed

section \<open>The colour of an instance\<close>

text \<open>
  C7. After a rebuild, the base colour stored for a pooled object is
  \<open>createFromHSV (atan2 (z, x) / RAD, 0.8 * sqrt (x * x + z * z) / 50, 0.9)\<close> with alpha 1,
  a function of the object's \<open>x\<close> and \<open>z\<close> alone: two objects with the same \<open>(x, z)\<close>
  have the same base colour, whatever their indices, the random numbers drawn, the
  instances the two rebuilds started from, and so their \<open>y\<close>, rotations and scale.
  (\<open>createFromHSV\<close> is taken as a function of its three arguments.)
\<close>

theorem colour_is_function_of_placement:
  assumes "poolInv sa" "poolInv sb"
    and "sa' = result (resetInstance L rnda sa)" "sb' = result (resetInstance L rndb sb)"
    and "i < cubeNum sa" "j < cubeNum sb"
  shows "(\<exists>ox oz. placementOf sa' i = Some (ox, oz) \<and>
            colourOf sa' i = Some (instanceColor L ox oz)) \<and>
         (placementOf sa' i = placementOf sb' j \<longrightarrow> colourOf sa' i = colourOf sb' j)"
  using rebuilt_object[OF assms(1) assms(5), of L rnda] rebuilt_object[OF assms(2) assms(6), of L rndb]
  unfolding assms(3,4) by auto

theorem colour_is_function_of_placement_witness:
  "poolInv (demoMain\<lparr>cubeNum := 2\<rparr>) \<and> poolInv (demoMain\<lparr>cubeNum := 1, useModel := True\<rparr>) \<and>
   (1::nat) < cubeNum (demoMain\<lparr>cubeNum := 2\<rparr>) \<and>
   (0::nat) < cubeNum (demoMain\<lparr>cubeNum := 1, useModel := True\<rparr>) \<and>
   placementOf (result (resetInstance demoLibs
       (\<lambda>k. if k = 5 then 0.25 else if k = 7 then 0.75 else 0.5)
       (demoMain\<lparr>cubeNum := 2\<rparr>))) 1 =
     placementOf (result (resetInstance demoLibs
       (\<lambda>k. if k = 0 then 0.25 else if k = 2 then 0.75 else 0.1)
       (demoMain\<lparr>cubeNum := 1, useModel := True\<rparr>))) 0 \<and>
   colourOf (result (resetInstance demoLibs
       (\<lambda>k. if k = 5 then 0.25 else if k = 7 then 0.75 else 0.5)
       (demoMain\<lparr>cubeNum := 2\<rparr>))) 1 =
     colourOf (result (resetInstance demoLibs
       (\<lambda>k. if k = 0 then 0.25 else if k = 2 then 0.75 else 0.1)
       (demoMain\<lparr>cubeNum := 1, useModel := True\<rparr>))) 0"
proof -
  let ?sa = "demoMain\<lparr>cubeNum := 2\<rparr>"
  let ?sb = "demoMain\<lparr>cubeNum := 1, useModel := True\<rparr>"
  let ?ra = "\<lambda>k::nat. if k = 5 then 0.25 else if k = 7 then 0.75 else (0.5::real)"
  let ?rb = "\<lambda>k::nat. if k = 0 then 0.25 else if k = 2 then 0.75 else (0.1::real)"
  have pa: "poolInv ?sa" and pb: "poolInv ?sb"
    using demoMain_poolInv by simp_all
  have ia: "(1::nat) < cubeNum ?sa" and ib: "(0::nat) < cubeNum ?sb" by simp_all
  have e: "placementOf (result (resetInstance demoLibs ?ra ?sa)) 1 =
      placementOf (result (resetInstance demoLibs ?rb ?sb)) 0"
    using rebuilt_object[OF pa ia, of demoLibs ?ra] rebuilt_object[OF pb ib, of demoLibs ?rb]
    by simp
  from colour_is_function_of_placement[OF pa pb refl refl ia ib, of demoLibs ?ra ?rb] e
  show ?thesis using pa pb by simp
qed

section \<open>Start-up\<close>

text \<open>
  C4. A start-up with WebGPU present and a shader library that lacks \<open>vertex_main2\<close>:
  \<open>init\<close> returns at line 104 without entering the render loop, and without touching the
  class of \<open>document.body\<close> or raising anything, so nothing is reported, unlike the
  start-up without WebGPU, which line 55 marks with the class \<open>error\<close>.
\<close>

theorem missing_shader_function_is_not_reported:
  "webGPUInWindow demoStartup \<and>
   firstTick (init demoLibs demoStartup) = None \<and>
   bodyClassName (init demoLibs demoStartup) = None \<and>
   initThrown (init demoLibs demoStartup) = None \<and>
   bodyClassName (init demoLibs (demoStartup\<lparr>webGPUInWindow := False\<rparr>)) = Some ''error''"
  by (simp add: init_def demoStartup_def)

end
